theory Spec2Isabelle
  imports Complex_Main
begin

section \<open>The scalar type\<close>

text \<open>
  \<^verbatim>\<open>Expression<T>\<close> is a template over the scalar type \<^verbatim>\<open>T\<close>; the source instantiates
  it at \<^verbatim>\<open>double\<close> and \<^verbatim>\<open>complex<double>\<close>. Everything the tree algorithms ask of
  \<^verbatim>\<open>T\<close> is collected in one record, and every algorithm below takes it as its first
  argument:
  \<^item> \<open>from_int k\<close> is the conversion \<^verbatim>\<open>T(k)\<close> (used at 0, 1 and 2);
  \<^item> \<open>s_add\<close>, \<open>s_sub\<close>, \<open>s_mul\<close>, \<open>s_div\<close>, \<open>s_neg\<close> are the operators
    \<^verbatim>\<open>+ - * /\<close> and unary minus of \<^verbatim>\<open>T\<close>;
  \<^item> \<open>s_pow\<close>, \<open>s_sin\<close>, \<open>s_cos\<close>, \<open>s_exp\<close>, \<open>s_log\<close> are \<^verbatim>\<open>std::pow\<close>,
    \<^verbatim>\<open>std::sin\<close>, \<^verbatim>\<open>std::cos\<close>, \<^verbatim>\<open>std::exp\<close>, \<^verbatim>\<open>std::log\<close>;
  \<^item> \<open>s_print\<close> is the text that \<^verbatim>\<open>stringstream << value\<close> produces.
  None of these operations throws, so they are total functions; no algebraic law is
  assumed of them.
\<close>

record 'a scalar =
  from_int :: "int \<Rightarrow> 'a"
  s_add :: "'a \<Rightarrow> 'a \<Rightarrow> 'a"
  s_sub :: "'a \<Rightarrow> 'a \<Rightarrow> 'a"
  s_mul :: "'a \<Rightarrow> 'a \<Rightarrow> 'a"
  s_div :: "'a \<Rightarrow> 'a \<Rightarrow> 'a"
  s_neg :: "'a \<Rightarrow> 'a"
  s_pow :: "'a \<Rightarrow> 'a \<Rightarrow> 'a"
  s_sin :: "'a \<Rightarrow> 'a"
  s_cos :: "'a \<Rightarrow> 'a"
  s_exp :: "'a \<Rightarrow> 'a"
  s_log :: "'a \<Rightarrow> 'a"
  s_print :: "'a \<Rightarrow> string"

section \<open>Expression trees\<close>

text \<open>
  \<^verbatim>\<open>Node\<close> is a tagged union: the tag \<^verbatim>\<open>Node::Type\<close> decides which of \<^verbatim>\<open>value\<close>,
  \<^verbatim>\<open>variable\<close>, \<^verbatim>\<open>left\<close>, \<^verbatim>\<open>right\<close> are set by the four constructors. Nodes are never
  modified after construction, so the value of a tree is the term it unfolds to; the
  constructors below are the twelve tags, in the order of the enum.
\<close>

datatype 'a expr =
    Constant 'a
  | Variable string
  | Add "'a expr" "'a expr"
  | Subtract "'a expr" "'a expr"
  | Multiply "'a expr" "'a expr"
  | Divide "'a expr" "'a expr"
  | Power "'a expr" "'a expr"
  | Sin "'a expr"
  | Cos "'a expr"
  | Exp "'a expr"
  | Log "'a expr"
  | Negate "'a expr"

text \<open>
  The two \<^verbatim>\<open>runtime_error\<close>s of the source: \<^verbatim>\<open>"Undefined variable: " + name\<close> thrown
  by \<^verbatim>\<open>evaluate\<close>, and \<^verbatim>\<open>"Derivative of non-constant exponents not implemented"\<close> thrown by
  \<^verbatim>\<open>derivative\<close>.
\<close>

datatype error = UndefinedVariable string | NonConstantExponent

subsection \<open>Constructors and builder operations\<close>

definition Expression_default :: "'a scalar \<Rightarrow> 'a expr" where
  "Expression_default S = Constant (from_int S 0)"

definition Expression_value :: "'a \<Rightarrow> 'a expr" where
  "Expression_value v = Constant v"

definition Expression_variable :: "string \<Rightarrow> 'a expr" where
  "Expression_variable name = Variable name"

definition operator_plus :: "'a expr \<Rightarrow> 'a expr \<Rightarrow> 'a expr" where
  "operator_plus a other = Add a other"

definition operator_minus :: "'a expr \<Rightarrow> 'a expr \<Rightarrow> 'a expr" where
  "operator_minus a other = Subtract a other"

definition operator_times :: "'a expr \<Rightarrow> 'a expr \<Rightarrow> 'a expr" where
  "operator_times a other = Multiply a other"

definition operator_divide :: "'a expr \<Rightarrow> 'a expr \<Rightarrow> 'a expr" where
  "operator_divide a other = Divide a other"

definition operator_negate :: "'a expr \<Rightarrow> 'a expr" where
  "operator_negate a = Negate a"

definition sin_expr :: "'a expr \<Rightarrow> 'a expr" where
  "sin_expr e = Sin e"

definition cos_expr :: "'a expr \<Rightarrow> 'a expr" where
  "cos_expr e = Cos e"

definition exp_expr :: "'a expr \<Rightarrow> 'a expr" where
  "exp_expr e = Exp e"

definition log_expr :: "'a expr \<Rightarrow> 'a expr" where
  "log_expr e = Log e"

definition pow :: "'a expr \<Rightarrow> 'a expr \<Rightarrow> 'a expr" where
  "pow base exponent = Power base exponent"

definition pow_scalar :: "'a expr \<Rightarrow> 'a \<Rightarrow> 'a expr" where
  "pow_scalar base exponent = pow base (Expression_value exponent)"

subsection \<open>Predicates\<close>

fun isConstant :: "'a expr \<Rightarrow> bool" where
  "isConstant (Constant c) = True"
| "isConstant (Variable n) = False"
| "isConstant (Add l r) = (isConstant l \<and> isConstant r)"
| "isConstant (Subtract l r) = (isConstant l \<and> isConstant r)"
| "isConstant (Multiply l r) = (isConstant l \<and> isConstant r)"
| "isConstant (Divide l r) = (isConstant l \<and> isConstant r)"
| "isConstant (Power l r) = (isConstant l \<and> isConstant r)"
| "isConstant (Sin l) = isConstant l"
| "isConstant (Cos l) = isConstant l"
| "isConstant (Exp l) = isConstant l"
| "isConstant (Log l) = isConstant l"
| "isConstant (Negate l) = isConstant l"

fun isVariable :: "'a expr \<Rightarrow> bool" where
  "isVariable (Variable n) = True"
| "isVariable _ = False"

fun isVariable_named :: "'a expr \<Rightarrow> string \<Rightarrow> bool" where
  "isVariable_named (Variable n) var = (n = var)"
| "isVariable_named _ var = False"

subsection \<open>Evaluation\<close>

text \<open>
  An exception thrown while an operand is evaluated leaves through the enclosing
  operation: \<open>unary\<close> and \<open>binary\<close> pass the operand's error on. C++ does not fix the
  order in which the two operands of a binary operator are evaluated; the model takes
  the left one first, which only decides whose name the error carries when both
  operands have an unbound variable.
\<close>

definition unary :: "('a \<Rightarrow> 'a) \<Rightarrow> error + 'a \<Rightarrow> error + 'a" where
  "unary f a = (case a of Inl e \<Rightarrow> Inl e | Inr x \<Rightarrow> Inr (f x))"

definition binary :: "('a \<Rightarrow> 'a \<Rightarrow> 'a) \<Rightarrow> error + 'a \<Rightarrow> error + 'a \<Rightarrow> error + 'a" where
  "binary f a b =
     (case a of Inl e \<Rightarrow> Inl e
      | Inr x \<Rightarrow> (case b of Inl e \<Rightarrow> Inl e | Inr y \<Rightarrow> Inr (f x y)))"

fun evaluate :: "'a scalar \<Rightarrow> 'a expr \<Rightarrow> (string \<rightharpoonup> 'a) \<Rightarrow> error + 'a" where
  "evaluate S (Constant c) variables = Inr c"
| "evaluate S (Variable n) variables =
     (case variables n of Some x \<Rightarrow> Inr x | None \<Rightarrow> Inl (UndefinedVariable n))"
| "evaluate S (Add l r) variables =
     binary (s_add S) (evaluate S l variables) (evaluate S r variables)"
| "evaluate S (Subtract l r) variables =
     binary (s_sub S) (evaluate S l variables) (evaluate S r variables)"
| "evaluate S (Multiply l r) variables =
     binary (s_mul S) (evaluate S l variables) (evaluate S r variables)"
| "evaluate S (Divide l r) variables =
     binary (s_div S) (evaluate S l variables) (evaluate S r variables)"
| "evaluate S (Power l r) variables =
     binary (s_pow S) (evaluate S l variables) (evaluate S r variables)"
| "evaluate S (Sin l) variables = unary (s_sin S) (evaluate S l variables)"
| "evaluate S (Cos l) variables = unary (s_cos S) (evaluate S l variables)"
| "evaluate S (Exp l) variables = unary (s_exp S) (evaluate S l variables)"
| "evaluate S (Log l) variables = unary (s_log S) (evaluate S l variables)"
| "evaluate S (Negate l) variables = unary (s_neg S) (evaluate S l variables)"

subsection \<open>Differentiation\<close>

text \<open>
  \<open>and_then\<close> sequences two steps that may throw. In the \<^verbatim>\<open>POWER\<close> case the source
  first asks \<^verbatim>\<open>isConstant\<close> of the exponent, then evaluates the exponent with no
  bindings, and only then differentiates the base; the derivative of the exponent is
  never computed.
\<close>

definition and_then :: "error + 'b \<Rightarrow> ('b \<Rightarrow> error + 'c) \<Rightarrow> error + 'c" where
  "and_then a f = (case a of Inl e \<Rightarrow> Inl e | Inr x \<Rightarrow> f x)"

fun derivative :: "'a scalar \<Rightarrow> 'a expr \<Rightarrow> string \<Rightarrow> error + 'a expr" where
  "derivative S (Constant c) var = Inr (Constant (from_int S 0))"
| "derivative S (Variable n) var =
     Inr (Constant (if n = var then from_int S 1 else from_int S 0))"
| "derivative S (Add l r) var =
     and_then (derivative S l var) (\<lambda>dl.
     and_then (derivative S r var) (\<lambda>dr. Inr (Add dl dr)))"
| "derivative S (Subtract l r) var =
     and_then (derivative S l var) (\<lambda>dl.
     and_then (derivative S r var) (\<lambda>dr. Inr (Subtract dl dr)))"
| "derivative S (Multiply u v) var =
     and_then (derivative S u var) (\<lambda>du.
     and_then (derivative S v var) (\<lambda>dv.
       Inr (Add (Multiply du v) (Multiply u dv))))"
| "derivative S (Divide u v) var =
     and_then (derivative S u var) (\<lambda>du.
     and_then (derivative S v var) (\<lambda>dv.
       Inr (Divide (Subtract (Multiply du v) (Multiply u dv))
                   (Power v (Constant (from_int S 2))))))"
| "derivative S (Power u v) var =
     (if isConstant v then
        and_then (evaluate S v Map.empty) (\<lambda>n.
        and_then (derivative S u var) (\<lambda>term3.
          Inr (Multiply (Multiply (Constant n)
                                  (Power u (Constant (s_sub S n (from_int S 1)))))
                        term3)))
      else Inl NonConstantExponent)"
| "derivative S (Sin u) var =
     and_then (derivative S u var) (\<lambda>du. Inr (Multiply (Cos u) du))"
| "derivative S (Cos u) var =
     and_then (derivative S u var) (\<lambda>du. Inr (Multiply (Negate (Sin u)) du))"
| "derivative S (Exp u) var =
     and_then (derivative S u var) (\<lambda>du. Inr (Multiply (Exp u) du))"
| "derivative S (Log u) var =
     and_then (derivative S u var) (\<lambda>du. Inr (Divide du u))"
| "derivative S (Negate u) var =
     and_then (derivative S u var) (\<lambda>du. Inr (Negate du))"

subsection \<open>Rendering\<close>

fun toString :: "'a scalar \<Rightarrow> 'a expr \<Rightarrow> string" where
  "toString S (Constant c) = s_print S c"
| "toString S (Variable n) = n"
| "toString S (Add l r) = ''('' @ toString S l @ '' + '' @ toString S r @ '')''"
| "toString S (Subtract l r) = ''('' @ toString S l @ '' - '' @ toString S r @ '')''"
| "toString S (Multiply l r) = ''('' @ toString S l @ '' * '' @ toString S r @ '')''"
| "toString S (Divide l r) = ''('' @ toString S l @ '' / '' @ toString S r @ '')''"
| "toString S (Power l r) = ''pow('' @ toString S l @ '', '' @ toString S r @ '')''"
| "toString S (Sin l) = ''sin('' @ toString S l @ '')''"
| "toString S (Cos l) = ''cos('' @ toString S l @ '')''"
| "toString S (Exp l) = ''exp('' @ toString S l @ '')''"
| "toString S (Log l) = ''log('' @ toString S l @ '')''"
| "toString S (Negate l) = ''-('' @ toString S l @ '')''"

subsection \<open>Substitution, as a map on trees\<close>

text \<open>
  What \<^verbatim>\<open>substitute\<close> returns, read as a tree: a \<^verbatim>\<open>VARIABLE\<close> node named
  \<open>var\<close> is answered by the replacement; a node without children is returned as it
  is; any other node is rebuilt with its tag over the substituted children. Which
  nodes of the result are shared with the argument is the subject of the store model
  further down.
\<close>

fun substitute :: "'a expr \<Rightarrow> string \<Rightarrow> 'a expr \<Rightarrow> 'a expr" where
  "substitute (Constant c) var val = Constant c"
| "substitute (Variable n) var val = (if n = var then val else Variable n)"
| "substitute (Add l r) var val = Add (substitute l var val) (substitute r var val)"
| "substitute (Subtract l r) var val =
     Subtract (substitute l var val) (substitute r var val)"
| "substitute (Multiply l r) var val =
     Multiply (substitute l var val) (substitute r var val)"
| "substitute (Divide l r) var val = Divide (substitute l var val) (substitute r var val)"
| "substitute (Power l r) var val = Power (substitute l var val) (substitute r var val)"
| "substitute (Sin l) var val = Sin (substitute l var val)"
| "substitute (Cos l) var val = Cos (substitute l var val)"
| "substitute (Exp l) var val = Exp (substitute l var val)"
| "substitute (Log l) var val = Log (substitute l var val)"
| "substitute (Negate l) var val = Negate (substitute l var val)"

section \<open>Notions used to state the properties\<close>

text \<open>The names on the \<^verbatim>\<open>VARIABLE\<close> leaves of a tree.\<close>

fun vars :: "'a expr \<Rightarrow> string set" where
  "vars (Constant c) = {}"
| "vars (Variable n) = {n}"
| "vars (Add l r) = vars l \<union> vars r"
| "vars (Subtract l r) = vars l \<union> vars r"
| "vars (Multiply l r) = vars l \<union> vars r"
| "vars (Divide l r) = vars l \<union> vars r"
| "vars (Power l r) = vars l \<union> vars r"
| "vars (Sin l) = vars l"
| "vars (Cos l) = vars l"
| "vars (Exp l) = vars l"
| "vars (Log l) = vars l"
| "vars (Negate l) = vars l"

text \<open>Every node of a tree, as the subtree rooted there (the tree itself first).\<close>

fun subtrees :: "'a expr \<Rightarrow> 'a expr list" where
  "subtrees (Constant c) = [Constant c]"
| "subtrees (Variable n) = [Variable n]"
| "subtrees (Add l r) = Add l r # subtrees l @ subtrees r"
| "subtrees (Subtract l r) = Subtract l r # subtrees l @ subtrees r"
| "subtrees (Multiply l r) = Multiply l r # subtrees l @ subtrees r"
| "subtrees (Divide l r) = Divide l r # subtrees l @ subtrees r"
| "subtrees (Power l r) = Power l r # subtrees l @ subtrees r"
| "subtrees (Sin l) = Sin l # subtrees l"
| "subtrees (Cos l) = Cos l # subtrees l"
| "subtrees (Exp l) = Exp l # subtrees l"
| "subtrees (Log l) = Log l # subtrees l"
| "subtrees (Negate l) = Negate l # subtrees l"

text \<open>
  A \<^verbatim>\<open>Power\<close> node whose exponent subtree contains a variable leaf, and a tree that
  has such a node anywhere (in a base and in an exponent as well).
\<close>

fun nonconstant_power :: "'a expr \<Rightarrow> bool" where
  "nonconstant_power (Power l r) = (vars r \<noteq> {})"
| "nonconstant_power _ = False"

definition has_nonconstant_exponent :: "'a expr \<Rightarrow> bool" where
  "has_nonconstant_exponent t = list_ex nonconstant_power (subtrees t)"

text \<open>Polynomials: trees built from constants, variables, \<open>+\<close>, \<open>-\<close> and \<open>*\<close>.\<close>

fun polynomial :: "'a expr \<Rightarrow> bool" where
  "polynomial (Constant c) = True"
| "polynomial (Variable n) = True"
| "polynomial (Add l r) = (polynomial l \<and> polynomial r)"
| "polynomial (Subtract l r) = (polynomial l \<and> polynomial r)"
| "polynomial (Multiply l r) = (polynomial l \<and> polynomial r)"
| "polynomial _ = False"

text \<open>
  The value of a tree over constants only: its constants combined by the scalar
  operations of its nodes, with no bindings involved; \<open>None\<close> for a tree with a
  variable leaf.
\<close>

fun constant_value :: "'a scalar \<Rightarrow> 'a expr \<Rightarrow> 'a option" where
  "constant_value S (Constant c) = Some c"
| "constant_value S (Variable n) = None"
| "constant_value S (Add l r) =
     (case (constant_value S l, constant_value S r) of
        (Some x, Some y) \<Rightarrow> Some (s_add S x y) | _ \<Rightarrow> None)"
| "constant_value S (Subtract l r) =
     (case (constant_value S l, constant_value S r) of
        (Some x, Some y) \<Rightarrow> Some (s_sub S x y) | _ \<Rightarrow> None)"
| "constant_value S (Multiply l r) =
     (case (constant_value S l, constant_value S r) of
        (Some x, Some y) \<Rightarrow> Some (s_mul S x y) | _ \<Rightarrow> None)"
| "constant_value S (Divide l r) =
     (case (constant_value S l, constant_value S r) of
        (Some x, Some y) \<Rightarrow> Some (s_div S x y) | _ \<Rightarrow> None)"
| "constant_value S (Power l r) =
     (case (constant_value S l, constant_value S r) of
        (Some x, Some y) \<Rightarrow> Some (s_pow S x y) | _ \<Rightarrow> None)"
| "constant_value S (Sin l) = map_option (s_sin S) (constant_value S l)"
| "constant_value S (Cos l) = map_option (s_cos S) (constant_value S l)"
| "constant_value S (Exp l) = map_option (s_exp S) (constant_value S l)"
| "constant_value S (Log l) = map_option (s_log S) (constant_value S l)"
| "constant_value S (Negate l) = map_option (s_neg S) (constant_value S l)"

text \<open>
  An instance of the scalar operations to run the definitions on: exact real
  arithmetic, with the text form of a scalar left to the caller. \<open>decimal\<close> writes a
  natural number the way the stream writes a small integral \<^verbatim>\<open>double\<close>, and \<open>demo\<close>
  is the instance that prints the integral part of a scalar with it.
\<close>

definition real_scalar :: "(real \<Rightarrow> string) \<Rightarrow> real scalar" where
  "real_scalar pr =
     \<lparr>from_int = of_int, s_add = (+), s_sub = (-), s_mul = (*), s_div = (/),
      s_neg = uminus, s_pow = (powr), s_sin = sin, s_cos = cos, s_exp = exp,
      s_log = ln, s_print = pr\<rparr>"

function decimal :: "nat \<Rightarrow> string" where
  "decimal n =
     (if n < 10 then [''0123456789'' ! n]
      else decimal (n div 10) @ [''0123456789'' ! (n mod 10)])"
  by pat_completeness auto
termination
  by (relation "measure id") auto

definition demo :: "real scalar" where
  "demo = real_scalar (\<lambda>r. decimal (nat \<lfloor>r\<rfloor>))"

section \<open>Nodes in a store\<close>

text \<open>
  Whether \<^verbatim>\<open>substitute\<close> hands back a node of its argument or a copy is a question
  about \<^verbatim>\<open>shared_ptr<Node>\<close> identities, which a tree value does not have. Here the
  nodes live in a store: a pointer is an index into it, \<^verbatim>\<open>nullptr\<close> is \<open>None\<close>, and
  \<^verbatim>\<open>make_shared\<close> appends a node and returns its index. Nothing ever writes to an
  existing node. \<open>n_value\<close> is \<open>None\<close> where the constructor leaves \<^verbatim>\<open>value\<close>
  uninitialised.
\<close>

datatype node_type =
  CONSTANT | VARIABLE | ADD | SUBTRACT | MULTIPLY | DIVIDE | POWER | SIN | COS | EXP | LOG | NEGATE

record 'a node =
  n_type :: node_type
  n_value :: "'a option"
  n_variable :: string
  n_left :: "nat option"
  n_right :: "nat option"

text \<open>The four constructors of \<^verbatim>\<open>Node\<close>.\<close>

definition Node_value :: "node_type \<Rightarrow> 'a \<Rightarrow> 'a node" where
  "Node_value t val =
     \<lparr>n_type = t, n_value = Some val, n_variable = [], n_left = None, n_right = None\<rparr>"

definition Node_variable :: "node_type \<Rightarrow> string \<Rightarrow> 'a node" where
  "Node_variable t var =
     \<lparr>n_type = t, n_value = None, n_variable = var, n_left = None, n_right = None\<rparr>"

definition Node_binary :: "node_type \<Rightarrow> nat option \<Rightarrow> nat option \<Rightarrow> 'a node" where
  "Node_binary t l r =
     \<lparr>n_type = t, n_value = None, n_variable = [], n_left = l, n_right = r\<rparr>"

definition Node_unary :: "node_type \<Rightarrow> nat option \<Rightarrow> 'a node" where
  "Node_unary t l =
     \<lparr>n_type = t, n_value = None, n_variable = [], n_left = l, n_right = None\<rparr>"

type_synonym 'a store = "'a node list"

definition make_shared :: "'a store \<Rightarrow> 'a node \<Rightarrow> 'a store \<times> nat" where
  "make_shared h n = (h @ [n], length h)"

text \<open>
  \<^verbatim>\<open>substitute\<close> on the node \<open>this\<close> (the \<^verbatim>\<open>root\<close> of the expression it is called on),
  with the root of the replacement in \<open>value\<close>. It returns the store after its
  allocations and the root of its answer. The recursion follows pointers, so it takes
  fuel: \<open>None\<close> is fuel exhausted, or a pointer outside the store. \<open>newLeft\<close> and
  \<open>newRight\<close> are the source's locals, \<open>None\<close> exactly where the child pointer is null.
\<close>

fun substitute_at ::
  "nat \<Rightarrow> 'a store \<Rightarrow> nat \<Rightarrow> string \<Rightarrow> nat \<Rightarrow> ('a store \<times> nat) option" where
  "substitute_at 0 h this variable value = None"
| "substitute_at (Suc fuel) h this variable value =
     (if length h \<le> this then None
      else if n_type (h ! this) = VARIABLE \<and> n_variable (h ! this) = variable
      then Some (h, value)
      else
        (case (case n_left (h ! this) of
                 None \<Rightarrow> Some (h, None)
               | Some l \<Rightarrow> map_option (\<lambda>(h', a). (h', Some a))
                             (substitute_at fuel h l variable value)) of
           None \<Rightarrow> None
         | Some (h1, newLeft) \<Rightarrow>
            (case (case n_right (h ! this) of
                     None \<Rightarrow> Some (h1, None)
                   | Some r \<Rightarrow> map_option (\<lambda>(h', a). (h', Some a))
                                 (substitute_at fuel h1 r variable value)) of
               None \<Rightarrow> None
             | Some (h2, newRight) \<Rightarrow>
                 if newLeft = None \<and> newRight = None then Some (h2, this)
                 else Some (make_shared h2
                        (Node_binary (n_type (h ! this))
                           (if newLeft \<noteq> None then newLeft else n_left (h ! this))
                           (if newRight \<noteq> None then newRight else n_right (h ! this)))))))"

text \<open>
  The tree a node stands for, read off the store with fuel: \<open>None\<close> when the fuel
  runs out, a pointer leaves the store, or a node does not have the fields its tag
  asks for.
\<close>

fun binary_expr :: "node_type \<Rightarrow> ('a expr \<Rightarrow> 'a expr \<Rightarrow> 'a expr) option" where
  "binary_expr ADD = Some Add"
| "binary_expr SUBTRACT = Some Subtract"
| "binary_expr MULTIPLY = Some Multiply"
| "binary_expr DIVIDE = Some Divide"
| "binary_expr POWER = Some Power"
| "binary_expr _ = None"

fun unary_expr :: "node_type \<Rightarrow> ('a expr \<Rightarrow> 'a expr) option" where
  "unary_expr SIN = Some Sin"
| "unary_expr COS = Some Cos"
| "unary_expr EXP = Some Exp"
| "unary_expr LOG = Some Log"
| "unary_expr NEGATE = Some Negate"
| "unary_expr _ = None"

fun tree_of :: "nat \<Rightarrow> 'a store \<Rightarrow> nat \<Rightarrow> 'a expr option" where
  "tree_of 0 h p = None"
| "tree_of (Suc fuel) h p =
     (if length h \<le> p then None
      else (case (n_type (h ! p), n_left (h ! p), n_right (h ! p)) of
              (CONSTANT, None, None) \<Rightarrow> map_option Constant (n_value (h ! p))
            | (VARIABLE, None, None) \<Rightarrow> Some (Variable (n_variable (h ! p)))
            | (t, Some l, None) \<Rightarrow>
                (case (unary_expr t, tree_of fuel h l) of
                   (Some f, Some a) \<Rightarrow> Some (f a) | _ \<Rightarrow> None)
            | (t, Some l, Some r) \<Rightarrow>
                (case (binary_expr t, tree_of fuel h l, tree_of fuel h r) of
                   (Some f, Some a, Some b) \<Rightarrow> Some (f a b) | _ \<Rightarrow> None)
            | _ \<Rightarrow> None))"

text \<open>
  The nodes a pointer reaches, itself included, read off the store with fuel, and
  among them the leaves that are not the variable \<open>x\<close>: \<open>is_variable\<close> is the test
  \<^verbatim>\<open>root->type == VARIABLE && root->variable == variable\<close> that \<^verbatim>\<open>substitute\<close> starts
  with.
\<close>

definition is_leaf :: "'a node \<Rightarrow> bool" where
  "is_leaf n = (n_left n = None \<and> n_right n = None)"

definition is_variable :: "string \<Rightarrow> 'a node \<Rightarrow> bool" where
  "is_variable x n = (n_type n = VARIABLE \<and> n_variable n = x)"

fun reach :: "nat \<Rightarrow> 'a store \<Rightarrow> nat \<Rightarrow> nat set" where
  "reach 0 h p = {}"
| "reach (Suc fuel) h p =
     (if length h \<le> p then {}
      else insert p
        ((case n_left (h ! p) of None \<Rightarrow> {} | Some l \<Rightarrow> reach fuel h l) \<union>
         (case n_right (h ! p) of None \<Rightarrow> {} | Some r \<Rightarrow> reach fuel h r)))"

definition kept :: "nat \<Rightarrow> 'a store \<Rightarrow> nat \<Rightarrow> string \<Rightarrow> nat set" where
  "kept k h p x = {q \<in> reach k h p. is_leaf (h ! q) \<and> \<not> is_variable x (h ! q)}"

text \<open>
  A store to run \<^verbatim>\<open>substitute\<close> on: the nodes of \<^verbatim>\<open>Expression(1) + Expression(2)\<close>
  (root at index 2), followed by those of \<^verbatim>\<open>Expression("y") * Expression("y")\<close>
  (root at index 5) and of \<^verbatim>\<open>Expression("y") + Expression(1)\<close> (root at index 8).
\<close>

definition example_store :: "real store" where
  "example_store =
     [Node_value CONSTANT 1, Node_value CONSTANT 2, Node_binary ADD (Some 0) (Some 1),
      Node_variable VARIABLE ''y'', Node_variable VARIABLE ''y'',
      Node_binary MULTIPLY (Some 3) (Some 4),
      Node_variable VARIABLE ''y'', Node_value CONSTANT 1,
      Node_binary ADD (Some 6) (Some 7)]"

declare decimal.simps [simp del]

section \<open>Facts about evaluation and differentiation\<close>

text \<open>
  \<^verbatim>\<open>isConstant\<close> holds of the trees without a variable leaf; such a tree evaluates at
  any bindings, to the same value. \<^verbatim>\<open>evaluate\<close> fails only on a variable leaf that the
  bindings lack.
\<close>

lemma isConstant_vars: "isConstant t = (vars t = {})"
  by (induction t) auto

lemma evaluate_isConstant: "isConstant t \<Longrightarrow> \<exists>a. evaluate S t b = Inr a"
  by (induction t) (auto simp: binary_def unary_def)

lemma evaluate_isConstant_bindings: "isConstant t \<Longrightarrow> evaluate S t b = evaluate S t b'"
  by (induction t) (auto simp: binary_def unary_def)

lemma evaluate_error: "evaluate S t b = Inl e \<Longrightarrow> \<exists>n. e = UndefinedVariable n \<and> n \<in> vars t \<and> n \<notin> dom b"
  by (induction t arbitrary: e) (auto simp: binary_def unary_def split: sum.splits option.splits)

lemma evaluate_defined: "vars t \<subseteq> dom b \<Longrightarrow> \<exists>a. evaluate S t b = Inr a"
  by (induction t) (auto simp: binary_def unary_def split: sum.splits option.splits)

lemma evaluate_Inr_vars: "evaluate S t b = Inr a \<Longrightarrow> vars t \<subseteq> dom b"
  by (induction t arbitrary: a) (auto simp: binary_def unary_def split: sum.splits option.splits)

lemma constant_value_isConstant: "isConstant t \<Longrightarrow> \<exists>c. constant_value S t = Some c"
  by (induction t) auto

lemma constant_value_None: "(constant_value S t = None) = (\<not> isConstant t)"
  by (induction t) (auto split: option.splits)

lemma constant_value_evaluate: "constant_value S t = Some c \<Longrightarrow> evaluate S t b = Inr c"
  by (induction t arbitrary: c) (auto simp: binary_def unary_def split: option.splits)

text \<open>
  \<^verbatim>\<open>derivative\<close> fails exactly on the trees with a non-constant exponent, and what it
  returns has no variable that its argument lacks.
\<close>

lemma has_nce_simps:
  "has_nonconstant_exponent (Constant c) = False"
  "has_nonconstant_exponent (Variable n) = False"
  "has_nonconstant_exponent (Add l r) = (has_nonconstant_exponent l \<or> has_nonconstant_exponent r)"
  "has_nonconstant_exponent (Subtract l r) = (has_nonconstant_exponent l \<or> has_nonconstant_exponent r)"
  "has_nonconstant_exponent (Multiply l r) = (has_nonconstant_exponent l \<or> has_nonconstant_exponent r)"
  "has_nonconstant_exponent (Divide l r) = (has_nonconstant_exponent l \<or> has_nonconstant_exponent r)"
  "has_nonconstant_exponent (Power l r) = (vars r \<noteq> {} \<or> has_nonconstant_exponent l \<or> has_nonconstant_exponent r)"
  "has_nonconstant_exponent (Sin l) = has_nonconstant_exponent l"
  "has_nonconstant_exponent (Cos l) = has_nonconstant_exponent l"
  "has_nonconstant_exponent (Exp l) = has_nonconstant_exponent l"
  "has_nonconstant_exponent (Log l) = has_nonconstant_exponent l"
  "has_nonconstant_exponent (Negate l) = has_nonconstant_exponent l"
  by (simp_all add: has_nonconstant_exponent_def)

lemma constant_no_nce: "vars t = {} \<Longrightarrow> \<not> has_nonconstant_exponent t"
  by (induction t) (auto simp: has_nce_simps)

lemma derivative_error: "derivative S t x = Inl e \<Longrightarrow> e = NonConstantExponent \<and> has_nonconstant_exponent t"
proof (induction t arbitrary: e)
  case (Power u v)
  show ?case
  proof (cases "isConstant v")
    case True
    then obtain n where "evaluate S v Map.empty = Inr n"
      using evaluate_isConstant by blast
    with True Power show ?thesis
      by (auto simp: and_then_def has_nce_simps split: sum.splits)
  next
    case False
    with Power.prems show ?thesis
      by (simp add: has_nce_simps isConstant_vars)
  qed
qed (auto simp: and_then_def has_nce_simps split: sum.splits)

lemma derivative_ok: "\<not> has_nonconstant_exponent t \<Longrightarrow> \<exists>d. derivative S t x = Inr d \<and> \<not> has_nonconstant_exponent d"
proof (induction t)
  case (Power u v)
  then have c: "isConstant v" and nu: "\<not> has_nonconstant_exponent u" and nv: "\<not> has_nonconstant_exponent v"
    by (simp_all add: has_nce_simps isConstant_vars)
  obtain n where "evaluate S v Map.empty = Inr n"
    using evaluate_isConstant[OF c] by blast
  moreover obtain du where "derivative S u x = Inr du" "\<not> has_nonconstant_exponent du"
    using Power.IH(1)[OF nu] by blast
  ultimately show ?case using c nu
    by (simp add: and_then_def has_nce_simps)
qed (auto simp: and_then_def has_nce_simps)

lemma derivative_Inr:
  "derivative S t x = Inr d \<Longrightarrow> \<not> has_nonconstant_exponent t"
  by (induction t arbitrary: d)
     (auto simp: and_then_def has_nce_simps isConstant_vars constant_no_nce
           split: sum.splits if_splits)

lemma derivative_vars: "derivative S t x = Inr d \<Longrightarrow> vars d \<subseteq> vars t"
  by (induction t arbitrary: d) (auto simp: and_then_def split: sum.splits if_splits)

lemma polynomial_derivative:
  "polynomial u \<Longrightarrow> \<exists>du. derivative S u t = Inr du \<and> polynomial du"
  by (induction u) (auto simp: and_then_def)

text \<open>Substitution on trees.\<close>

lemma evaluate_substitute:
  "evaluate S r b = Inr a \<Longrightarrow> evaluate S (substitute t v r) b = evaluate S t (b(v \<mapsto> a))"
  by (induction t) auto

lemma vars_substitute:
  "vars (substitute t v r) = (vars t - {v}) \<union> (if v \<in> vars t then vars r else {})"
  by (induction t) auto

lemma substitute_absent: "v \<notin> vars t \<Longrightarrow> substitute t v r = t"
  by (induction t) auto

section \<open>Facts about the store\<close>

text \<open>
  One step of \<open>tree_of\<close> and of \<open>substitute_at\<close>, by the shape of the node: a leaf, a
  node with a left child only, and a node with both children. (No constructor of the
  source makes a node with a right child only; \<open>substitute_at\<close> is defined on it all
  the same.)
\<close>

lemma tree_of_Some_cases:
  assumes "tree_of (Suc k) h p = Some t"
  shows "p < length h \<and>
    ((n_left (h ! p) = None \<and> n_right (h ! p) = None \<and>
        ((n_type (h ! p) = CONSTANT \<and> (\<exists>c. n_value (h ! p) = Some c \<and> t = Constant c)) \<or>
         (n_type (h ! p) = VARIABLE \<and> t = Variable (n_variable (h ! p))))) \<or>
     (\<exists>l f a. n_left (h ! p) = Some l \<and> n_right (h ! p) = None \<and>
        unary_expr (n_type (h ! p)) = Some f \<and> tree_of k h l = Some a \<and> t = f a) \<or>
     (\<exists>l r f a b. n_left (h ! p) = Some l \<and> n_right (h ! p) = Some r \<and>
        binary_expr (n_type (h ! p)) = Some f \<and> tree_of k h l = Some a \<and>
        tree_of k h r = Some b \<and> t = f a b))"
  using assms
  by (auto split: if_splits option.splits node_type.splits)

lemma tree_of_SomeE:
  assumes "tree_of (Suc k) h p = Some t"
  obtains
    (const) c where "p < length h" "n_left (h ! p) = None" "n_right (h ! p) = None"
      "n_type (h ! p) = CONSTANT" "n_value (h ! p) = Some c" "t = Constant c"
  | (var) "p < length h" "n_left (h ! p) = None" "n_right (h ! p) = None"
      "n_type (h ! p) = VARIABLE" "t = Variable (n_variable (h ! p))"
  | (un) l f a where "p < length h" "n_left (h ! p) = Some l" "n_right (h ! p) = None"
      "unary_expr (n_type (h ! p)) = Some f" "tree_of k h l = Some a" "t = f a"
  | (bin) l r f a b where "p < length h" "n_left (h ! p) = Some l"
      "n_right (h ! p) = Some r" "binary_expr (n_type (h ! p)) = Some f"
      "tree_of k h l = Some a" "tree_of k h r = Some b" "t = f a b"
  using tree_of_Some_cases[OF assms]
  apply (elim conjE disjE exE)
     apply (rule const; assumption)
    apply (rule var; assumption)
   apply (rule un; assumption)
  apply (rule bin; assumption)
  done

lemma substitute_at_variable:
  "this < length h \<Longrightarrow> n_type (h ! this) = VARIABLE \<Longrightarrow> n_variable (h ! this) = x \<Longrightarrow>
   substitute_at (Suc k) h this x e = Some (h, e)"
  by simp

lemma substitute_at_leaf:
  "this < length h \<Longrightarrow> \<not> (n_type (h ! this) = VARIABLE \<and> n_variable (h ! this) = x) \<Longrightarrow>
   n_left (h ! this) = None \<Longrightarrow> n_right (h ! this) = None \<Longrightarrow>
   substitute_at (Suc k) h this x e = Some (h, this)"
  by auto

lemma substitute_at_unary:
  "this < length h \<Longrightarrow> \<not> (n_type (h ! this) = VARIABLE \<and> n_variable (h ! this) = x) \<Longrightarrow>
   n_left (h ! this) = Some l \<Longrightarrow> n_right (h ! this) = None \<Longrightarrow>
   substitute_at (Suc k) h this x e =
     (case substitute_at k h l x e of
        None \<Rightarrow> None
      | Some (h1, l') \<Rightarrow>
          Some (h1 @ [Node_binary (n_type (h ! this)) (Some l') None], length h1))"
  by (auto simp: make_shared_def split: option.splits)

lemma substitute_at_binary:
  "this < length h \<Longrightarrow> \<not> (n_type (h ! this) = VARIABLE \<and> n_variable (h ! this) = x) \<Longrightarrow>
   n_left (h ! this) = Some l \<Longrightarrow> n_right (h ! this) = Some r \<Longrightarrow>
   substitute_at (Suc k) h this x e =
     (case substitute_at k h l x e of
        None \<Rightarrow> None
      | Some (h1, l') \<Rightarrow>
          (case substitute_at k h1 r x e of
             None \<Rightarrow> None
           | Some (h2, r') \<Rightarrow>
               Some (h2 @ [Node_binary (n_type (h ! this)) (Some l') (Some r')], length h2)))"
  by (auto simp: make_shared_def split: option.splits)

lemma substitute_at_right_only:
  "this < length h \<Longrightarrow> \<not> (n_type (h ! this) = VARIABLE \<and> n_variable (h ! this) = x) \<Longrightarrow>
   n_left (h ! this) = None \<Longrightarrow> n_right (h ! this) = Some r \<Longrightarrow>
   substitute_at (Suc k) h this x e =
     (case substitute_at k h r x e of
        None \<Rightarrow> None
      | Some (h2, r') \<Rightarrow>
          Some (h2 @ [Node_binary (n_type (h ! this)) None (Some r')], length h2))"
  by (auto simp: make_shared_def split: option.splits)

lemma tree_of_constant:
  "p < length h \<Longrightarrow> n_type (h ! p) = CONSTANT \<Longrightarrow> n_left (h ! p) = None \<Longrightarrow>
   n_right (h ! p) = None \<Longrightarrow> tree_of (Suc k) h p = map_option Constant (n_value (h ! p))"
  by simp

lemma tree_of_variable:
  "p < length h \<Longrightarrow> n_type (h ! p) = VARIABLE \<Longrightarrow> n_left (h ! p) = None \<Longrightarrow>
   n_right (h ! p) = None \<Longrightarrow> tree_of (Suc k) h p = Some (Variable (n_variable (h ! p)))"
  by simp

lemma tree_of_unary:
  "p < length h \<Longrightarrow> n_left (h ! p) = Some l \<Longrightarrow> n_right (h ! p) = None \<Longrightarrow>
   unary_expr (n_type (h ! p)) = Some f \<Longrightarrow>
   tree_of (Suc k) h p = map_option f (tree_of k h l)"
  by (cases "n_type (h ! p)") (auto split: option.splits)

lemma tree_of_binary:
  "p < length h \<Longrightarrow> n_left (h ! p) = Some l \<Longrightarrow> n_right (h ! p) = Some r \<Longrightarrow>
   binary_expr (n_type (h ! p)) = Some f \<Longrightarrow>
   tree_of (Suc k) h p =
     (case (tree_of k h l, tree_of k h r) of (Some a, Some b) \<Rightarrow> Some (f a b) | _ \<Rightarrow> None)"
  by (cases "n_type (h ! p)") (auto split: option.splits)

lemma substitute_at_in_store:
  "substitute_at k h this x e = Some res \<Longrightarrow> this < length h"
  by (cases k) (simp_all split: if_splits)

declare substitute_at.simps(2) [simp del] tree_of.simps(2) [simp del]

text \<open>
  \<^verbatim>\<open>substitute\<close> only appends to the store; a tree read from the store is read the
  same from any extension of it, and with any larger fuel.
\<close>

lemma substitute_at_extends:
  "substitute_at k h this x e = Some (h', r) \<Longrightarrow> \<exists>ns. h' = h @ ns"
proof (induction k arbitrary: h this h' r)
  case 0
  then show ?case by simp
next
  case (Suc k)
  from Suc.prems have lt: "this < length h"
    by (rule substitute_at_in_store)
  show ?case
  proof (cases "n_type (h ! this) = VARIABLE \<and> n_variable (h ! this) = x")
    case True
    with Suc.prems lt show ?thesis
      by (simp add: substitute_at_variable)
  next
    case nv: False
    show ?thesis
    proof (cases "n_left (h ! this)")
      case ln: None
      show ?thesis
      proof (cases "n_right (h ! this)")
        case None
        from Suc.prems show ?thesis
          unfolding substitute_at_leaf[OF lt nv ln None] by simp
      next
        case (Some rc)
        from Suc.prems obtain h2 r' where
          "substitute_at k h rc x e = Some (h2, r')" "h' = h2 @ [Node_binary (n_type (h ! this)) None (Some r')]"
          unfolding substitute_at_right_only[OF lt nv ln Some]
          by (auto split: option.splits)
        with Suc.IH show ?thesis by fastforce
      qed
    next
      case ls: (Some lc)
      show ?thesis
      proof (cases "n_right (h ! this)")
        case None
        from Suc.prems obtain h1 l' where
          "substitute_at k h lc x e = Some (h1, l')" "h' = h1 @ [Node_binary (n_type (h ! this)) (Some l') None]"
          unfolding substitute_at_unary[OF lt nv ls None]
          by (auto split: option.splits)
        with Suc.IH show ?thesis by fastforce
      next
        case (Some rc)
        from Suc.prems obtain h1 l' h2 r' where
          s: "substitute_at k h lc x e = Some (h1, l')" "substitute_at k h1 rc x e = Some (h2, r')"
          "h' = h2 @ [Node_binary (n_type (h ! this)) (Some l') (Some r')]"
          unfolding substitute_at_binary[OF lt nv ls Some]
          by (auto split: option.splits)
        from Suc.IH[OF s(1)] Suc.IH[OF s(2)] s(3) show ?thesis by auto
      qed
    qed
  qed
qed

lemma tree_of_extends:
  "tree_of k h p = Some t \<Longrightarrow> tree_of k (h @ ns) p = Some t"
proof (induction k arbitrary: p t)
  case 0
  then show ?case by simp
next
  case (Suc k)
  from tree_of_Some_cases[OF Suc.prems] have lt: "p < length h" by simp
  then have lt': "p < length (h @ ns)" and nth: "(h @ ns) ! p = h ! p"
    by (simp_all add: nth_append)
  from Suc.prems show ?case
  proof (cases rule: tree_of_SomeE)
    case (const c)
    with tree_of_constant[of p "h @ ns" k] lt' nth show ?thesis
      by simp
  next
    case var
    with tree_of_variable[of p "h @ ns" k] lt' nth show ?thesis
      by simp
  next
    case (un l f a)
    with Suc.IH[of l a] show ?thesis
      using tree_of_unary[of p "h @ ns" l f k] lt' nth by simp
  next
    case (bin l r f a b)
    with Suc.IH[of l a] Suc.IH[of r b] show ?thesis
      using tree_of_binary[of p "h @ ns" l r f k] lt' nth by simp
  qed
qed

lemma tree_of_fuel:
  "tree_of k h p = Some t \<Longrightarrow> tree_of (k + j) h p = Some t"
proof (induction k arbitrary: p t)
  case 0
  then show ?case by simp
next
  case (Suc k)
  from tree_of_Some_cases[OF Suc.prems] have lt: "p < length h" by simp
  from Suc.prems show ?case
  proof (cases rule: tree_of_SomeE)
    case (const c)
    with tree_of_constant[of p h "k + j"] lt show ?thesis
      by simp
  next
    case var
    with tree_of_variable[of p h "k + j"] lt show ?thesis
      by simp
  next
    case (un l f a)
    with Suc.IH[of l a] show ?thesis
      using tree_of_unary[of p h l f "k + j"] lt by simp
  next
    case (bin l r f a b)
    with Suc.IH[of l a] Suc.IH[of r b] show ?thesis
      using tree_of_binary[of p h l r f "k + j"] lt by simp
  qed
qed

lemma unary_expr_substitute:
  "unary_expr ty = Some f \<Longrightarrow> ty \<noteq> VARIABLE \<and> substitute (f a) x v = f (substitute a x v)"
  by (cases ty) auto

lemma unary_expr_vars: "unary_expr ty = Some f \<Longrightarrow> vars (f a) = vars a"
  by (cases ty) auto

lemma binary_expr_vars: "binary_expr ty = Some f \<Longrightarrow> vars (f a b) = vars a \<union> vars b"
  by (cases ty) auto

lemma binary_expr_substitute:
  "binary_expr ty = Some f \<Longrightarrow>
   ty \<noteq> VARIABLE \<and> substitute (f a b) x v = f (substitute a x v) (substitute b x v)"
  by (cases ty) auto

text \<open>
  On a node that stands for a tree, \<open>substitute_at\<close> returns with the fuel that reads
  the tree, and its answer stands for the substituted tree.
\<close>

lemma substitute_at_terminates:
  "tree_of k h this = Some t \<Longrightarrow> \<exists>h' r. substitute_at k h this x e = Some (h', r)"
proof (induction k arbitrary: h this t)
  case 0
  then show ?case by simp
next
  case (Suc k)
  from Suc.prems show ?case
  proof (cases rule: tree_of_SomeE)
    case (const c)
    then show ?thesis
      using substitute_at_leaf[of this h x k e] by simp
  next
    case var
    then show ?thesis
      using substitute_at_leaf[of this h x k e] substitute_at_variable[of this h x k e]
      by (cases "n_variable (h ! this) = x") simp_all
  next
    case (un l f a)
    from un(4) have nv: "\<not> (n_type (h ! this) = VARIABLE \<and> n_variable (h ! this) = x)"
      using unary_expr_substitute by blast
    from Suc.IH[OF un(5)] obtain h1 l' where "substitute_at k h l x e = Some (h1, l')"
      by blast
    then show ?thesis
      unfolding substitute_at_unary[OF un(1) nv un(2) un(3)] by simp
  next
    case (bin l r f a b)
    from bin(4) have nv: "\<not> (n_type (h ! this) = VARIABLE \<and> n_variable (h ! this) = x)"
      using binary_expr_substitute by blast
    from Suc.IH[OF bin(5)] obtain h1 l' where l: "substitute_at k h l x e = Some (h1, l')"
      by blast
    from substitute_at_extends[OF l] obtain ns where "h1 = h @ ns" by blast
    with bin(6) have "tree_of k h1 r = Some b"
      by (simp add: tree_of_extends)
    from Suc.IH[OF this] obtain h2 r' where "substitute_at k h1 r x e = Some (h2, r')"
      by blast
    with l show ?thesis
      unfolding substitute_at_binary[OF bin(1) nv bin(2) bin(3)] by simp
  qed
qed

lemma tree_of_new_unary:
  assumes "unary_expr ty = Some f" "tree_of i h l = Some a"
  shows "tree_of (Suc i) (h @ [Node_binary ty (Some l) None]) (length h) = Some (f a)"
proof -
  let ?h = "h @ [Node_binary ty (Some l) None]"
  have "tree_of i ?h l = Some a"
    using assms(2) by (rule tree_of_extends)
  moreover have "tree_of (Suc i) ?h (length h) = map_option f (tree_of i ?h l)"
    by (rule tree_of_unary) (simp_all add: Node_binary_def assms(1))
  ultimately show ?thesis by simp
qed

lemma tree_of_new_binary:
  assumes "binary_expr ty = Some f" "tree_of i h l = Some a" "tree_of j h r = Some b"
  shows "tree_of (Suc (i + j)) (h @ [Node_binary ty (Some l) (Some r)]) (length h) = Some (f a b)"
proof -
  let ?h = "h @ [Node_binary ty (Some l) (Some r)]"
  have "tree_of (i + j) h l = Some a"
    using assms(2) by (rule tree_of_fuel)
  then have l: "tree_of (i + j) ?h l = Some a"
    by (rule tree_of_extends)
  have "tree_of (j + i) h r = Some b"
    using assms(3) by (rule tree_of_fuel)
  then have "tree_of (i + j) h r = Some b"
    by (simp add: add.commute)
  then have r: "tree_of (i + j) ?h r = Some b"
    by (rule tree_of_extends)
  have "tree_of (Suc (i + j)) ?h (length h) =
      (case (tree_of (i + j) ?h l, tree_of (i + j) ?h r) of
         (Some a, Some b) \<Rightarrow> Some (f a b) | _ \<Rightarrow> None)"
    by (rule tree_of_binary) (simp_all add: Node_binary_def assms(1))
  with l r show ?thesis by simp
qed

lemma substitute_at_refines:
  "tree_of k h this = Some t \<Longrightarrow> x \<in> vars t \<longrightarrow> tree_of j h e = Some v \<Longrightarrow>
   substitute_at k h this x e = Some (h', r) \<Longrightarrow>
   \<exists>i. tree_of i h' r = Some (substitute t x v)"
proof (induction k arbitrary: h this t h' r)
  case 0
  then show ?case by simp
next
  case (Suc k)
  from Suc.prems(1) show ?case
  proof (cases rule: tree_of_SomeE)
    case (const c)
    with Suc.prems(3) have "h' = h" "r = this"
      using substitute_at_leaf[of this h x k e] by simp_all
    moreover have "substitute t x v = t" using const(6) by simp
    ultimately show ?thesis using Suc.prems(1) by metis
  next
    case var
    show ?thesis
    proof (cases "n_variable (h ! this) = x")
      case True
      with var Suc.prems(3) have "h' = h" "r = e"
        using substitute_at_variable[of this h x k e] by simp_all
      moreover have "substitute t x v = v" "x \<in> vars t" using var(5) True by simp_all
      ultimately show ?thesis using Suc.prems(2) by metis
    next
      case False
      with var Suc.prems(3) have "h' = h" "r = this"
        using substitute_at_leaf[of this h x k e] by simp_all
      moreover have "substitute t x v = t" using var(5) False by simp
      ultimately show ?thesis using Suc.prems(1) by metis
    qed
  next
    case (un l f a)
    from un(4) have nv: "\<not> (n_type (h ! this) = VARIABLE \<and> n_variable (h ! this) = x)"
      and sub: "substitute t x v = f (substitute a x v)"
      using unary_expr_substitute[OF un(4)] un(6) by simp_all
    from Suc.prems(2) have e: "x \<in> vars a \<longrightarrow> tree_of j h e = Some v"
      using unary_expr_vars[OF un(4)] un(6) by simp
    from Suc.prems(3) obtain h1 l' where
      s: "substitute_at k h l x e = Some (h1, l')"
      and res: "h' = h1 @ [Node_binary (n_type (h ! this)) (Some l') None]" "r = length h1"
      unfolding substitute_at_unary[OF un(1) nv un(2) un(3)]
      by (auto split: option.splits)
    from Suc.IH[OF un(5) e s] obtain i where
      "tree_of i h1 l' = Some (substitute a x v)" by blast
    from tree_of_new_unary[OF un(4) this] res sub show ?thesis by auto
  next
    case (bin l rc f a b)
    from bin(4) have nv: "\<not> (n_type (h ! this) = VARIABLE \<and> n_variable (h ! this) = x)"
      and sub: "substitute t x v = f (substitute a x v) (substitute b x v)"
      using binary_expr_substitute[OF bin(4)] bin(7) by simp_all
    from Suc.prems(2) have e: "x \<in> vars a \<longrightarrow> tree_of j h e = Some v"
      and e': "x \<in> vars b \<longrightarrow> tree_of j h e = Some v"
      using binary_expr_vars[OF bin(4)] bin(7) by simp_all
    from Suc.prems(3) obtain h1 l' h2 r' where
      s1: "substitute_at k h l x e = Some (h1, l')"
      and s2: "substitute_at k h1 rc x e = Some (h2, r')"
      and res: "h' = h2 @ [Node_binary (n_type (h ! this)) (Some l') (Some r')]" "r = length h2"
      unfolding substitute_at_binary[OF bin(1) nv bin(2) bin(3)]
      by (auto split: option.splits)
    from substitute_at_extends[OF s1] obtain ns1 where h1: "h1 = h @ ns1" by blast
    from substitute_at_extends[OF s2] obtain ns2 where h2: "h2 = h1 @ ns2" by blast
    from Suc.IH[OF bin(5) e s1] obtain i1 where
      "tree_of i1 h1 l' = Some (substitute a x v)" by blast
    then have t1: "tree_of i1 h2 l' = Some (substitute a x v)"
      unfolding h2 by (rule tree_of_extends)
    have "tree_of k h1 rc = Some b" "x \<in> vars b \<longrightarrow> tree_of j h1 e = Some v"
      unfolding h1 using bin(6) e' by (simp_all add: tree_of_extends)
    from Suc.IH[OF this s2] obtain i2 where
      t2: "tree_of i2 h2 r' = Some (substitute b x v)" by blast
    from tree_of_new_binary[OF bin(4) t1 t2] res sub show ?thesis by auto
  qed
qed

lemma substitute_at_fuel:
  "substitute_at k h this x e = Some res \<Longrightarrow> substitute_at (k + j) h this x e = Some res"
proof (induction k arbitrary: h this res)
  case 0
  then show ?case by simp
next
  case (Suc k)
  from Suc.prems have lt: "this < length h"
    by (rule substitute_at_in_store)
  show ?case
  proof (cases "n_type (h ! this) = VARIABLE \<and> n_variable (h ! this) = x")
    case True
    with Suc.prems lt show ?thesis
      by (simp add: substitute_at_variable)
  next
    case nv: False
    show ?thesis
    proof (cases "n_left (h ! this)")
      case ln: None
      show ?thesis
      proof (cases "n_right (h ! this)")
        case None
        from Suc.prems show ?thesis
          using substitute_at_leaf[OF lt nv ln None, of k e]
            substitute_at_leaf[OF lt nv ln None, of "k + j" e] by simp
      next
        case (Some rc)
        from Suc.prems obtain h2 r' where
          "substitute_at k h rc x e = Some (h2, r')"
          "res = (h2 @ [Node_binary (n_type (h ! this)) None (Some r')], length h2)"
          unfolding substitute_at_right_only[OF lt nv ln Some]
          by (auto split: option.splits)
        with Suc.IH[of h rc "(h2, r')"] show ?thesis
          using substitute_at_right_only[OF lt nv ln Some, of "k + j" e] by simp
      qed
    next
      case ls: (Some lc)
      show ?thesis
      proof (cases "n_right (h ! this)")
        case None
        from Suc.prems obtain h1 l' where
          "substitute_at k h lc x e = Some (h1, l')"
          "res = (h1 @ [Node_binary (n_type (h ! this)) (Some l') None], length h1)"
          unfolding substitute_at_unary[OF lt nv ls None]
          by (auto split: option.splits)
        with Suc.IH[of h lc "(h1, l')"] show ?thesis
          using substitute_at_unary[OF lt nv ls None, of "k + j" e] by simp
      next
        case (Some rc)
        from Suc.prems obtain h1 l' h2 r' where
          s: "substitute_at k h lc x e = Some (h1, l')" "substitute_at k h1 rc x e = Some (h2, r')"
          "res = (h2 @ [Node_binary (n_type (h ! this)) (Some l') (Some r')], length h2)"
          unfolding substitute_at_binary[OF lt nv ls Some]
          by (auto split: option.splits)
        from Suc.IH[OF s(1)] Suc.IH[OF s(2)] s(3) show ?thesis
          using substitute_at_binary[OF lt nv ls Some, of "k + j" e] by simp
      qed
    qed
  qed
qed

text \<open>What a call returns, by the shape of the node it is called on.\<close>

lemma substitute_at_interior:
  assumes "substitute_at k h this x e = Some (h', r)"
    and "\<not> (n_type (h ! this) = VARIABLE \<and> n_variable (h ! this) = x)"
    and "n_left (h ! this) \<noteq> None \<or> n_right (h ! this) \<noteq> None"
  shows "length h \<le> r \<and> length h' = Suc r \<and> n_type (h' ! r) = n_type (h ! this)"
proof (cases k)
  case 0
  with assms(1) show ?thesis by simp
next
  case (Suc k')
  from assms(1) have lt: "this < length h"
    by (rule substitute_at_in_store)
  show ?thesis
  proof (cases "n_left (h ! this)")
    case ln: None
    with assms(3) obtain rc where rs: "n_right (h ! this) = Some rc" by auto
    from assms(1) obtain h2 r' where
      s: "substitute_at k' h rc x e = Some (h2, r')"
      and res: "h' = h2 @ [Node_binary (n_type (h ! this)) None (Some r')]" "r = length h2"
      unfolding Suc substitute_at_right_only[OF lt assms(2) ln rs]
      by (auto split: option.splits)
    from substitute_at_extends[OF s] res show ?thesis
      by (auto simp: Node_binary_def)
  next
    case ls: (Some l)
    show ?thesis
    proof (cases "n_right (h ! this)")
      case None
      from assms(1) obtain h1 l' where
        s: "substitute_at k' h l x e = Some (h1, l')"
        and res: "h' = h1 @ [Node_binary (n_type (h ! this)) (Some l') None]" "r = length h1"
        unfolding Suc substitute_at_unary[OF lt assms(2) ls None]
        by (auto split: option.splits)
      from substitute_at_extends[OF s] res show ?thesis
        by (auto simp: Node_binary_def)
    next
      case (Some rc)
      from assms(1) obtain h1 l' h2 r' where
        s1: "substitute_at k' h l x e = Some (h1, l')"
        and s2: "substitute_at k' h1 rc x e = Some (h2, r')"
        and res: "h' = h2 @ [Node_binary (n_type (h ! this)) (Some l') (Some r')]" "r = length h2"
        unfolding Suc substitute_at_binary[OF lt assms(2) ls Some]
        by (auto split: option.splits)
      from substitute_at_extends[OF s1] substitute_at_extends[OF s2] res show ?thesis
        by (auto simp: Node_binary_def)
    qed
  qed
qed

lemma substitute_at_leaf_result:
  assumes "substitute_at k h this x e = Some (h', r)"
    and "n_left (h ! this) = None" "n_right (h ! this) = None"
  shows "h' = h \<and> r = (if n_type (h ! this) = VARIABLE \<and> n_variable (h ! this) = x then e else this)"
proof (cases k)
  case 0
  with assms(1) show ?thesis by simp
next
  case (Suc k')
  from assms(1) have lt: "this < length h"
    by (rule substitute_at_in_store)
  show ?thesis
  proof (cases "n_type (h ! this) = VARIABLE \<and> n_variable (h ! this) = x")
    case True
    with assms(1) lt show ?thesis
      unfolding Suc by (simp add: substitute_at_variable)
  next
    case False
    from assms(1) show ?thesis
      unfolding Suc substitute_at_leaf[OF lt False assms(2,3)] using False by auto
  qed
qed

lemma substitute_at_variable_result:
  assumes "substitute_at k h this x e = Some (h', r)"
    and "n_type (h ! this) = VARIABLE" "n_variable (h ! this) = x"
  shows "h' = h \<and> r = e"
proof (cases k)
  case 0
  with assms(1) show ?thesis by simp
next
  case (Suc k')
  from assms(1) have lt: "this < length h"
    by (rule substitute_at_in_store)
  with assms show ?thesis
    unfolding Suc by (simp add: substitute_at_variable)
qed

lemma substitute_at_unary_result:
  assumes "substitute_at k h this x e = Some (h', r)"
    and "\<not> (n_type (h ! this) = VARIABLE \<and> n_variable (h ! this) = x)"
    and "n_left (h ! this) = Some l" "n_right (h ! this) = None"
  shows "\<exists>k' h1 l'. k = Suc k' \<and> substitute_at k' h l x e = Some (h1, l') \<and>
     h' = h1 @ [Node_binary (n_type (h ! this)) (Some l') None] \<and> r = length h1"
proof (cases k)
  case 0
  with assms(1) show ?thesis by simp
next
  case (Suc k')
  from assms(1) have lt: "this < length h"
    by (rule substitute_at_in_store)
  from assms(1) show ?thesis
    unfolding Suc substitute_at_unary[OF lt assms(2,3,4)]
    by (auto split: option.splits)
qed

lemma substitute_at_binary_result:
  assumes "substitute_at k h this x e = Some (h', r)"
    and "\<not> (n_type (h ! this) = VARIABLE \<and> n_variable (h ! this) = x)"
    and "n_left (h ! this) = Some l" "n_right (h ! this) = Some rc"
  shows "\<exists>k' h1 l' h2 r'. k = Suc k' \<and> substitute_at k' h l x e = Some (h1, l') \<and>
     substitute_at k' h1 rc x e = Some (h2, r') \<and>
     h' = h2 @ [Node_binary (n_type (h ! this)) (Some l') (Some r')] \<and> r = length h2"
proof (cases k)
  case 0
  with assms(1) show ?thesis by simp
next
  case (Suc k')
  from assms(1) have lt: "this < length h"
    by (rule substitute_at_in_store)
  from assms(1) show ?thesis
    unfolding Suc substitute_at_binary[OF lt assms(2,3,4)]
    by (auto split: option.splits)
qed

text \<open>The nodes of the original store that the answer of \<open>substitute_at\<close> reaches.\<close>

lemma reach_leaf:
  "p < length h \<Longrightarrow> n_left (h ! p) = None \<Longrightarrow> n_right (h ! p) = None \<Longrightarrow>
   reach (Suc k) h p = {p}"
  by simp

lemma reach_unary:
  "p < length h \<Longrightarrow> n_left (h ! p) = Some l \<Longrightarrow> n_right (h ! p) = None \<Longrightarrow>
   reach (Suc k) h p = insert p (reach k h l)"
  by simp

lemma reach_binary:
  "p < length h \<Longrightarrow> n_left (h ! p) = Some l \<Longrightarrow> n_right (h ! p) = Some r \<Longrightarrow>
   reach (Suc k) h p = insert p (reach k h l \<union> reach k h r)"
  by simp

declare reach.simps(2) [simp del]

lemma tree_of_0: "tree_of k h p = Some t \<Longrightarrow> \<exists>k'. k = Suc k'"
  by (cases k) simp_all

lemma reach_fuel:
  "tree_of k h p = Some t \<Longrightarrow> reach (k + i) h p = reach k h p"
proof (induction k arbitrary: p t)
  case 0
  then show ?case by simp
next
  case (Suc k)
  from Suc.prems show ?case
  proof (cases rule: tree_of_SomeE)
    case (const c)
    then show ?thesis by (simp add: reach_leaf)
  next
    case var
    then show ?thesis by (simp add: reach_leaf)
  next
    case (un l f a)
    with Suc.IH[of l a] show ?thesis by (simp add: reach_unary)
  next
    case (bin l r f a b)
    with Suc.IH[of l a] Suc.IH[of r b] show ?thesis by (simp add: reach_binary)
  qed
qed

lemma reach_extends:
  "tree_of k h p = Some t \<Longrightarrow> reach n (h @ ns) p = reach n h p"
proof (induction n arbitrary: k p t)
  case 0
  then show ?case by simp
next
  case (Suc n)
  from tree_of_0[OF Suc.prems] obtain k' where k: "k = Suc k'" by blast
  from Suc.prems[unfolded k] show ?case
  proof (cases rule: tree_of_SomeE)
    case (const c)
    then show ?thesis by (simp add: reach_leaf nth_append)
  next
    case var
    then show ?thesis by (simp add: reach_leaf nth_append)
  next
    case (un l f a)
    with Suc.IH[of k' l a] show ?thesis by (simp add: reach_unary nth_append)
  next
    case (bin l r f a b)
    with Suc.IH[of k' l a] Suc.IH[of k' r b] show ?thesis
      by (simp add: reach_binary nth_append)
  qed
qed

lemma reach_in_store:
  "tree_of k h p = Some t \<Longrightarrow> q \<in> reach n h p \<Longrightarrow> q < length h"
proof (induction n arbitrary: k p t)
  case 0
  then show ?case by simp
next
  case (Suc n)
  from tree_of_0[OF Suc.prems(1)] obtain k' where k: "k = Suc k'" by blast
  from Suc.prems(1)[unfolded k] show ?case
  proof (cases rule: tree_of_SomeE)
    case (const c)
    with Suc.prems(2) show ?thesis by (simp add: reach_leaf)
  next
    case var
    with Suc.prems(2) show ?thesis by (simp add: reach_leaf)
  next
    case (un l f a)
    with Suc.prems(2) Suc.IH[of k' l a] show ?thesis by (auto simp: reach_unary)
  next
    case (bin l r f a b)
    with Suc.prems(2) Suc.IH[of k' l a] Suc.IH[of k' r b] show ?thesis
      by (auto simp: reach_binary)
  qed
qed

lemma kept_leaf:
  "p < length h \<Longrightarrow> n_left (h ! p) = None \<Longrightarrow> n_right (h ! p) = None \<Longrightarrow>
   kept (Suc k) h p x = (if is_variable x (h ! p) then {} else {p})"
  by (auto simp: kept_def reach_leaf is_leaf_def)

lemma kept_unary:
  "p < length h \<Longrightarrow> n_left (h ! p) = Some l \<Longrightarrow> n_right (h ! p) = None \<Longrightarrow>
   kept (Suc k) h p x = kept k h l x"
  by (auto simp: kept_def reach_unary is_leaf_def)

lemma kept_binary:
  "p < length h \<Longrightarrow> n_left (h ! p) = Some l \<Longrightarrow> n_right (h ! p) = Some r \<Longrightarrow>
   kept (Suc k) h p x = kept k h l x \<union> kept k h r x"
  by (auto simp: kept_def reach_binary is_leaf_def)

lemma kept_extends:
  assumes "tree_of k h p = Some t"
  shows "kept n (h @ ns) p x = kept n h p x"
proof -
  have "reach n (h @ ns) p = reach n h p"
    using assms by (rule reach_extends)
  moreover have "(h @ ns) ! q = h ! q" if "q \<in> reach n h p" for q
    using reach_in_store[OF assms that] by (simp add: nth_append)
  ultimately show ?thesis
    by (auto simp: kept_def)
qed

lemma kept_in_store:
  "tree_of k h p = Some t \<Longrightarrow> q \<in> kept n h p x \<Longrightarrow> q < length h"
  by (auto simp: kept_def dest: reach_in_store)

lemma substitute_at_reach:
  "tree_of k h this = Some t \<Longrightarrow> x \<in> vars t \<longrightarrow> tree_of j h e = Some v \<Longrightarrow>
   substitute_at k h this x e = Some (h', r) \<Longrightarrow>
   {q \<in> reach (k + j + i) h' r. q < length h} =
     kept k h this x \<union> (if x \<in> vars t then reach j h e else {})"
proof (induction k arbitrary: h this t h' r)
  case 0
  then show ?case by simp
next
  case (Suc k)
  from Suc.prems(1) show ?case
  proof (cases rule: tree_of_SomeE)
    case (const c)
    with Suc.prems(3) have "h' = h" "r = this"
      using substitute_at_leaf[of this h x k e] by simp_all
    with const show ?thesis
      by (auto simp: kept_leaf reach_leaf is_variable_def)
  next
    case var
    show ?thesis
    proof (cases "n_variable (h ! this) = x")
      case True
      with var Suc.prems(3) have res: "h' = h" "r = e"
        using substitute_at_variable[of this h x k e] by simp_all
      from True var(5) Suc.prems(2) have e: "tree_of j h e = Some v" and x: "x \<in> vars t"
        by simp_all
      have "reach (j + (Suc k + i)) h e = reach j h e"
        using e by (rule reach_fuel)
      then have "reach (Suc k + j + i) h e = reach j h e"
        by (simp add: add.commute add.left_commute)
      moreover have "q < length h" if "q \<in> reach j h e" for q
        using reach_in_store[OF e that] .
      ultimately show ?thesis
        using res x var True by (auto simp: kept_leaf is_variable_def)
    next
      case False
      with var Suc.prems(3) have "h' = h" "r = this"
        using substitute_at_leaf[of this h x k e] by simp_all
      with var False show ?thesis
        by (auto simp: kept_leaf reach_leaf is_variable_def)
    qed
  next
    case (un l f a)
    from un(4) have nv: "\<not> (n_type (h ! this) = VARIABLE \<and> n_variable (h ! this) = x)"
      using unary_expr_substitute[OF un(4)] by simp
    have vt: "vars t = vars a"
      using unary_expr_vars[OF un(4)] un(6) by simp
    with Suc.prems(2) have e: "x \<in> vars a \<longrightarrow> tree_of j h e = Some v"
      by simp
    from Suc.prems(3) obtain h1 l' where
      s: "substitute_at k h l x e = Some (h1, l')"
      and res: "h' = h1 @ [Node_binary (n_type (h ! this)) (Some l') None]" "r = length h1"
      unfolding substitute_at_unary[OF un(1) nv un(2) un(3)]
      by (auto split: option.splits)
    from substitute_at_extends[OF s] obtain ns1 where h1: "h1 = h @ ns1" by blast
    from substitute_at_refines[OF un(5) e s] obtain i1 where
      t1: "tree_of i1 h1 l' = Some (substitute a x v)" by blast
    have ih: "{q \<in> reach (k + j + i) h1 l'. q < length h} =
        kept k h l x \<union> (if x \<in> vars a then reach j h e else {})"
      using Suc.IH[OF un(5) e s] .
    have "reach (Suc (k + j + i)) h' r = insert r (reach (k + j + i) h' l')"
      unfolding res by (rule reach_unary) (simp_all add: Node_binary_def)
    moreover have "reach (k + j + i) h' l' = reach (k + j + i) h1 l'"
      unfolding res using t1 by (rule reach_extends)
    moreover have "\<not> r < length h"
      using res(2) h1 by simp
    ultimately have "{q \<in> reach (Suc k + j + i) h' r. q < length h} =
        {q \<in> reach (k + j + i) h1 l'. q < length h}"
      by auto
    with ih vt show ?thesis
      by (simp add: kept_unary[OF un(1) un(2) un(3)])
  next
    case (bin l rc f a b)
    from bin(4) have nv: "\<not> (n_type (h ! this) = VARIABLE \<and> n_variable (h ! this) = x)"
      using binary_expr_substitute[OF bin(4)] by simp
    have vt: "vars t = vars a \<union> vars b"
      using binary_expr_vars[OF bin(4)] bin(7) by simp
    with Suc.prems(2) have e: "x \<in> vars a \<longrightarrow> tree_of j h e = Some v"
      and e': "x \<in> vars b \<longrightarrow> tree_of j h e = Some v"
      by simp_all
    from Suc.prems(3) obtain h1 l' h2 r' where
      s1: "substitute_at k h l x e = Some (h1, l')"
      and s2: "substitute_at k h1 rc x e = Some (h2, r')"
      and res: "h' = h2 @ [Node_binary (n_type (h ! this)) (Some l') (Some r')]" "r = length h2"
      unfolding substitute_at_binary[OF bin(1) nv bin(2) bin(3)]
      by (auto split: option.splits)
    from substitute_at_extends[OF s1] obtain ns1 where h1: "h1 = h @ ns1" by blast
    from substitute_at_extends[OF s2] obtain ns2 where h2: "h2 = h1 @ ns2" by blast
    have b1: "tree_of k h1 rc = Some b" and e1: "x \<in> vars b \<longrightarrow> tree_of j h1 e = Some v"
      unfolding h1 using bin(6) e' by (simp_all add: tree_of_extends)
    from substitute_at_refines[OF bin(5) e s1] obtain i1 where
      t1: "tree_of i1 h1 l' = Some (substitute a x v)" by blast
    from substitute_at_refines[OF b1 e1 s2] obtain i2 where
      t2: "tree_of i2 h2 r' = Some (substitute b x v)" by blast
    have ih1: "{q \<in> reach (k + j + i) h1 l'. q < length h} =
        kept k h l x \<union> (if x \<in> vars a then reach j h e else {})"
      using Suc.IH[OF bin(5) e s1] .
    have ih2: "{q \<in> reach (k + j + i) h2 r'. q < length h1} =
        kept k h1 rc x \<union> (if x \<in> vars b then reach j h1 e else {})"
      using Suc.IH[OF b1 e1 s2] .
    have k1: "kept k h1 rc x = kept k h rc x"
      unfolding h1 using bin(6) by (rule kept_extends)
    have r1: "reach j h1 e = reach j h e" if "x \<in> vars b"
    proof -
      from e' that have "tree_of j h e = Some v" by simp
      then show ?thesis
        unfolding h1 by (rule reach_extends)
    qed
    have old: "q < length h"
      if "q \<in> kept k h rc x \<union> (if x \<in> vars b then reach j h e else {})" for q
      using that kept_in_store[OF bin(6)] e' reach_in_store[of j h e v q j]
      by (auto split: if_splits)
    have right: "{q \<in> reach (k + j + i) h2 r'. q < length h} =
        kept k h rc x \<union> (if x \<in> vars b then reach j h e else {})"
    proof -
      have "{q \<in> reach (k + j + i) h2 r'. q < length h} =
          {q \<in> {q \<in> reach (k + j + i) h2 r'. q < length h1}. q < length h}"
        using h1 by auto
      also have "\<dots> = {q \<in> kept k h rc x \<union> (if x \<in> vars b then reach j h e else {}).
          q < length h}"
        unfolding ih2 k1 using r1 by auto
      also have "\<dots> = kept k h rc x \<union> (if x \<in> vars b then reach j h e else {})"
        using old by blast
      finally show ?thesis .
    qed
    have "reach (Suc (k + j + i)) h' r =
        insert r (reach (k + j + i) h' l' \<union> reach (k + j + i) h' r')"
      unfolding res by (rule reach_binary) (simp_all add: Node_binary_def)
    moreover have "reach (k + j + i) h' l' = reach (k + j + i) h1 l'"
    proof -
      have "h' = h1 @ (ns2 @ [Node_binary (n_type (h ! this)) (Some l') (Some r')])"
        using res(1) h2 by simp
      then show ?thesis
        using reach_extends[OF t1] by simp
    qed
    moreover have "reach (k + j + i) h' r' = reach (k + j + i) h2 r'"
      unfolding res using t2 by (rule reach_extends)
    moreover have "\<not> r < length h"
      using res(2) h1 h2 by simp
    ultimately have "{q \<in> reach (Suc k + j + i) h' r. q < length h} =
        {q \<in> reach (k + j + i) h1 l'. q < length h} \<union>
        {q \<in> reach (k + j + i) h2 r'. q < length h}"
      by auto
    with ih1 right vt show ?thesis
      by (auto simp: kept_binary[OF bin(1) bin(2) bin(3)])
  qed
qed

text \<open>The equations that run the store functions on a concrete store.\<close>

lemmas store_simps = example_store_def substitute_at.simps tree_of.simps numeral_2_eq_2
  Node_binary_def Node_value_def Node_variable_def make_shared_def

lemmas reach_simps = reach.simps kept_def is_leaf_def is_variable_def numeral_eq_Suc
  less_Suc_eq

section \<open>The claims\<close>

text \<open>
  Claim C1 (product rule). When \<^verbatim>\<open>derivative\<close> returns \<open>du\<close> for \<open>u\<close> and \<open>dv\<close> for \<open>v\<close>,
  it returns the tree \<open>du * v + u * dv\<close> for \<open>Multiply u v\<close>, and at every binding where
  \<open>u\<close>, \<open>v\<close>, \<open>du\<close> and \<open>dv\<close> evaluate, to \<open>a\<close>, \<open>c\<close>, \<open>a'\<close> and \<open>c'\<close>, the derivative of
  the product evaluates to \<open>a' * c + a * c'\<close> in the scalar's arithmetic. For polynomials
  \<open>u\<close> and \<open>v\<close> both derivatives are returned, and all four trees evaluate at every
  binding that covers the variables of \<open>u\<close> and \<open>v\<close>.
\<close>

theorem product_rule:
  "(derivative S u t = Inr du \<and> derivative S v t = Inr dv \<longrightarrow>
      derivative S (Multiply u v) t =
        Inr (operator_plus (operator_times du v) (operator_times u dv)) \<and>
      (evaluate S u b = Inr a \<and> evaluate S v b = Inr c \<and>
       evaluate S du b = Inr a' \<and> evaluate S dv b = Inr c' \<longrightarrow>
         (\<exists>d. derivative S (Multiply u v) t = Inr d \<and>
              evaluate S d b = Inr (s_add S (s_mul S a' c) (s_mul S a c'))))) \<and>
   (polynomial u \<and> polynomial v \<longrightarrow>
      (\<exists>du dv. derivative S u t = Inr du \<and> derivative S v t = Inr dv \<and>
         (vars u \<union> vars v \<subseteq> dom b \<longrightarrow>
            (\<exists>a c a' c'. evaluate S u b = Inr a \<and> evaluate S v b = Inr c \<and>
               evaluate S du b = Inr a' \<and> evaluate S dv b = Inr c'))))"
proof (intro conjI impI)
  assume d: "derivative S u t = Inr du \<and> derivative S v t = Inr dv"
  then show "derivative S (Multiply u v) t =
      Inr (operator_plus (operator_times du v) (operator_times u dv))"
    by (simp add: and_then_def operator_plus_def operator_times_def)
  assume "evaluate S u b = Inr a \<and> evaluate S v b = Inr c \<and>
       evaluate S du b = Inr a' \<and> evaluate S dv b = Inr c'"
  with d show "\<exists>d. derivative S (Multiply u v) t = Inr d \<and>
      evaluate S d b = Inr (s_add S (s_mul S a' c) (s_mul S a c'))"
    by (simp add: and_then_def binary_def)
next
  assume p: "polynomial u \<and> polynomial v"
  then obtain du dv where d: "derivative S u t = Inr du" "derivative S v t = Inr dv"
    using polynomial_derivative by blast
  have "\<exists>a c a' c'. evaluate S u b = Inr a \<and> evaluate S v b = Inr c \<and>
      evaluate S du b = Inr a' \<and> evaluate S dv b = Inr c'"
    if sub: "vars u \<union> vars v \<subseteq> dom b"
  proof -
    from sub have "vars u \<subseteq> dom b" "vars v \<subseteq> dom b" by simp_all
    moreover from this derivative_vars[OF d(1)] derivative_vars[OF d(2)]
    have "vars du \<subseteq> dom b" "vars dv \<subseteq> dom b" by blast+
    ultimately show ?thesis
      using evaluate_defined[of u b S] evaluate_defined[of v b S]
        evaluate_defined[of du b S] evaluate_defined[of dv b S] by auto
  qed
  with d show "\<exists>du dv. derivative S u t = Inr du \<and> derivative S v t = Inr dv \<and>
      (vars u \<union> vars v \<subseteq> dom b \<longrightarrow>
        (\<exists>a c a' c'. evaluate S u b = Inr a \<and> evaluate S v b = Inr c \<and>
           evaluate S du b = Inr a' \<and> evaluate S dv b = Inr c'))"
    by blast
qed

theorem product_rule_witness:
  "polynomial (Variable ''x'' :: real expr) \<and>
   polynomial (Multiply (Variable ''x'') (Constant (3::real))) \<and>
   vars (Variable ''x'' :: real expr) \<union> vars (Multiply (Variable ''x'') (Constant (3::real)))
     \<subseteq> dom [''x'' \<mapsto> 2::real] \<and>
   derivative demo (Multiply (Variable ''x'') (Multiply (Variable ''x'') (Constant 3))) ''x'' =
     Inr (operator_plus
            (operator_times (Constant 1) (Multiply (Variable ''x'') (Constant 3)))
            (operator_times (Variable ''x'')
               (Add (Multiply (Constant 1) (Constant 3)) (Multiply (Variable ''x'') (Constant 0))))) \<and>
   (\<exists>d. derivative demo (Multiply (Variable ''x'') (Multiply (Variable ''x'') (Constant 3))) ''x''
           = Inr d \<and>
        evaluate demo d [''x'' \<mapsto> 2] = Inr 12)"
  using product_rule[of demo "Variable ''x''" "''x''" "Constant 1"
      "Multiply (Variable ''x'') (Constant 3)"
      "Add (Multiply (Constant 1) (Constant 3)) (Multiply (Variable ''x'') (Constant 0))"
      "[''x'' \<mapsto> 2]" 2 6 1 3]
  by (simp add: demo_def real_scalar_def and_then_def binary_def
        operator_plus_def operator_times_def)

text \<open>
  Claim C2 (power rule, constant exponent). For every scalar \<open>n\<close> and \<open>a\<close>, the derivative
  of \<open>Power (Variable x) (Constant n)\<close> with respect to \<open>x\<close> is returned, and at bindings
  with \<open>x = a\<close> it evaluates to \<open>(n * a^(n - 1)) * 1\<close>, the last factor being the
  derivative of the base; this is \<open>n * a^(n - 1)\<close> as soon as \<^verbatim>\<open>T(1)\<close> is a right unit of
  the scalar's multiplication. In general, for a base \<open>u\<close> with derivative \<open>du\<close> and an
  exponent \<open>v\<close> over constants only, with value \<open>m\<close>, the derivative of \<open>Power u v\<close> is the
  tree \<open>(m * u^(m - 1)) * du\<close>, and it evaluates to that product wherever \<open>u\<close> and \<open>du\<close>
  evaluate.
\<close>

theorem power_rule:
  "(b x = Some a \<longrightarrow>
      (\<exists>d. derivative S (Power (Variable x) (Constant n)) x = Inr d \<and>
         evaluate S d b =
           Inr (s_mul S (s_mul S n (s_pow S a (s_sub S n (from_int S 1)))) (from_int S 1)) \<and>
         ((\<forall>y. s_mul S y (from_int S 1) = y) \<longrightarrow>
            evaluate S d b = Inr (s_mul S n (s_pow S a (s_sub S n (from_int S 1))))))) \<and>
   (isConstant v \<and> derivative S u var = Inr du \<longrightarrow>
      (\<exists>m. evaluate S v Map.empty = Inr m \<and>
         derivative S (Power u v) var =
           Inr (Multiply (Multiply (Constant m) (Power u (Constant (s_sub S m (from_int S 1))))) du) \<and>
         (evaluate S u b = Inr a0 \<and> evaluate S du b = Inr a1 \<longrightarrow>
            (\<exists>d. derivative S (Power u v) var = Inr d \<and>
               evaluate S d b =
                 Inr (s_mul S (s_mul S m (s_pow S a0 (s_sub S m (from_int S 1)))) a1)))))"
proof (intro conjI impI)
  assume "b x = Some a"
  then show "\<exists>d. derivative S (Power (Variable x) (Constant n)) x = Inr d \<and>
      evaluate S d b =
        Inr (s_mul S (s_mul S n (s_pow S a (s_sub S n (from_int S 1)))) (from_int S 1)) \<and>
      ((\<forall>y. s_mul S y (from_int S 1) = y) \<longrightarrow>
         evaluate S d b = Inr (s_mul S n (s_pow S a (s_sub S n (from_int S 1)))))"
    by (simp add: and_then_def binary_def)
next
  assume a: "isConstant v \<and> derivative S u var = Inr du"
  then obtain m where m: "evaluate S v Map.empty = Inr m"
    using evaluate_isConstant by blast
  with a have d: "derivative S (Power u v) var =
      Inr (Multiply (Multiply (Constant m) (Power u (Constant (s_sub S m (from_int S 1))))) du)"
    by (simp add: and_then_def)
  have "evaluate S u b = Inr a0 \<and> evaluate S du b = Inr a1 \<longrightarrow>
      (\<exists>d. derivative S (Power u v) var = Inr d \<and>
         evaluate S d b = Inr (s_mul S (s_mul S m (s_pow S a0 (s_sub S m (from_int S 1)))) a1))"
    unfolding d by (simp add: binary_def)
  with m d show "\<exists>m. evaluate S v Map.empty = Inr m \<and>
      derivative S (Power u v) var =
        Inr (Multiply (Multiply (Constant m) (Power u (Constant (s_sub S m (from_int S 1))))) du) \<and>
      (evaluate S u b = Inr a0 \<and> evaluate S du b = Inr a1 \<longrightarrow>
         (\<exists>d. derivative S (Power u v) var = Inr d \<and>
            evaluate S d b =
              Inr (s_mul S (s_mul S m (s_pow S a0 (s_sub S m (from_int S 1)))) a1)))"
    by blast
qed

theorem power_rule_witness:
  "[''x'' \<mapsto> 3::real] ''x'' = Some 3 \<and>
   (\<forall>y. s_mul demo y (from_int demo 1) = y) \<and>
   (\<exists>d. derivative demo (Power (Variable ''x'') (Constant 2)) ''x'' = Inr d \<and>
        evaluate demo d [''x'' \<mapsto> 3] = Inr 6) \<and>
   isConstant (Add (Constant 1) (Constant (1::real))) \<and>
   derivative demo (Sin (Variable ''x'')) ''x'' = Inr (Multiply (Cos (Variable ''x'')) (Constant 1)) \<and>
   derivative demo (Power (Sin (Variable ''x'')) (Add (Constant 1) (Constant 1))) ''x'' =
     Inr (Multiply (Multiply (Constant 2) (Power (Sin (Variable ''x'')) (Constant 1)))
            (Multiply (Cos (Variable ''x'')) (Constant 1)))"
  using power_rule[of "[''x'' \<mapsto> 3]" "''x''" 3 demo 2 "Add (Constant 1) (Constant 1)"
      "Sin (Variable ''x'')" "''x''" "Multiply (Cos (Variable ''x'')) (Constant 1)"]
  by (simp add: demo_def real_scalar_def and_then_def binary_def)

text \<open>
  Claim C3 (unsupported differentiation). \<^verbatim>\<open>derivative\<close> fails with the error for a
  non-constant exponent exactly when the tree has a \<^verbatim>\<open>Power\<close> node whose exponent
  contains a variable leaf; it fails with no other error, and on every tree without
  such a node it returns a tree.
\<close>

theorem derivative_fails_iff:
  "(derivative S t var = Inl NonConstantExponent) = has_nonconstant_exponent t \<and>
   (\<forall>e. derivative S t var = Inl e \<longrightarrow> e = NonConstantExponent) \<and>
   (\<not> has_nonconstant_exponent t \<longrightarrow> (\<exists>d. derivative S t var = Inr d))"
  using derivative_error[of S t var] derivative_ok[of t S var] derivative_Inr[of S t var]
  by (cases "derivative S t var") auto

theorem derivative_fails_iff_witness:
  "\<not> has_nonconstant_exponent (Power (Variable ''x'') (Constant (2::real))) \<and>
   (\<exists>d. derivative demo (Power (Variable ''x'') (Constant 2)) ''x'' = Inr d) \<and>
   has_nonconstant_exponent (Power (Variable ''x'') (Variable ''y'') :: real expr) \<and>
   derivative demo (Power (Variable ''x'') (Variable ''y'')) ''x'' = Inl NonConstantExponent"
  using derivative_fails_iff[of demo "Power (Variable ''x'') (Constant 2)" "''x''"]
    derivative_fails_iff[of demo "Power (Variable ''x'') (Variable ''y'')" "''x''"]
  by (simp add: has_nce_simps)

text \<open>
  Claim C4 (unbound variable). \<^verbatim>\<open>evaluate\<close> fails with an undefined-variable error
  exactly when some variable leaf of the tree has a name that the bindings lack; it
  fails in no other way, and the name reported is such a leaf's. \<open>Variable v\<close> evaluates
  to \<open>x\<close> under the bindings \<open>{v: x}\<close>, and fails under bindings that lack \<open>v\<close>.
\<close>

theorem evaluate_fails_iff:
  "((\<exists>n. evaluate S t b = Inl (UndefinedVariable n)) = (\<not> vars t \<subseteq> dom b)) \<and>
   (\<forall>e. evaluate S t b = Inl e \<longrightarrow> (\<exists>n. e = UndefinedVariable n \<and> n \<in> vars t \<and> b n = None)) \<and>
   evaluate S (Variable v) [v \<mapsto> x] = Inr x \<and>
   (b v = None \<longrightarrow> evaluate S (Variable v) b = Inl (UndefinedVariable v))"
proof (intro conjI allI impI)
  show "(\<exists>n. evaluate S t b = Inl (UndefinedVariable n)) = (\<not> vars t \<subseteq> dom b)"
  proof
    assume "\<exists>n. evaluate S t b = Inl (UndefinedVariable n)"
    then show "\<not> vars t \<subseteq> dom b"
      using evaluate_defined[of t b S] by auto
  next
    assume "\<not> vars t \<subseteq> dom b"
    then obtain e where e: "evaluate S t b = Inl e"
      using evaluate_Inr_vars[of S t b] by (cases "evaluate S t b") auto
    from evaluate_error[OF this] e show "\<exists>n. evaluate S t b = Inl (UndefinedVariable n)"
      by auto
  qed
next
  fix e assume "evaluate S t b = Inl e"
  from evaluate_error[OF this] show "\<exists>n. e = UndefinedVariable n \<and> n \<in> vars t \<and> b n = None"
    by auto
qed simp_all

theorem evaluate_fails_iff_witness:
  "[''x'' \<mapsto> 1::real] ''y'' = None \<and>
   evaluate demo (Variable ''y'') [''x'' \<mapsto> 1] = Inl (UndefinedVariable ''y'') \<and>
   \<not> vars (Add (Variable ''x'') (Variable ''y'') :: real expr) \<subseteq> dom [''x'' \<mapsto> 1::real] \<and>
   (\<exists>n. evaluate demo (Add (Variable ''x'') (Variable ''y'')) [''x'' \<mapsto> 1]
          = Inl (UndefinedVariable n)) \<and>
   evaluate demo (Variable ''x'') [''x'' \<mapsto> 1] = Inr 1"
  using evaluate_fails_iff[of demo "Add (Variable ''x'') (Variable ''y'')" "[''x'' \<mapsto> 1]" "''y''" 1]
    evaluate_fails_iff[of demo "Variable ''x''" "[''x'' \<mapsto> 1]" "''x''" 1]
  by simp

text \<open>
  Claim C5 (substitution at a matching leaf). For every replacement \<open>E\<close>, every bindings
  map and every scalar type, substituting \<open>E\<close> for \<open>x\<close> in \<open>Variable x\<close> gives a tree that
  evaluates as \<open>E\<close> does, to the same value or the same error. In the store the call
  returns the root of the replacement itself and allocates nothing.
\<close>

theorem substitute_variable_evaluate:
  "evaluate S (substitute (Variable x) x E) bindings = evaluate S E bindings \<and>
   (this < length h \<and> n_type (h ! this) = VARIABLE \<and> n_variable (h ! this) = x \<longrightarrow>
      substitute_at (Suc fuel) h this x e = Some (h, e))"
  by (simp add: substitute_at_variable)

theorem substitute_variable_evaluate_witness:
  "evaluate demo (substitute (Variable ''x'') ''x'' (Add (Variable ''y'') (Constant 1)))
     [''y'' \<mapsto> 2] = Inr 3 \<and>
   n_type (example_store ! 3) = VARIABLE \<and> n_variable (example_store ! 3) = ''y'' \<and>
   substitute_at 1 example_store 3 ''y'' 8 = Some (example_store, 8)"
  using substitute_variable_evaluate[of demo "''x''" "Add (Variable ''y'') (Constant 1)"
      "[''y'' \<mapsto> 2]"]
    substitute_variable_evaluate[of demo "''y''" "Constant 0" Map.empty 3 example_store 0 8]
  by (simp add: demo_def real_scalar_def binary_def example_store_def Node_variable_def)

text \<open>
  Claim C6 (derivatives compose). If no \<^verbatim>\<open>Power\<close> node of \<open>t\<close> has a non-constant
  exponent, then \<^verbatim>\<open>derivative\<close> returns a tree for \<open>t\<close> and any variable, that tree
  again has no \<^verbatim>\<open>Power\<close> node with a non-constant exponent, so it can be differentiated
  again with respect to any variable, and it evaluates at every binding that covers
  the variables of \<open>t\<close>. (\<^verbatim>\<open>toString\<close> is total, so it can always be rendered.)
\<close>

theorem derivative_composes:
  "\<not> has_nonconstant_exponent t \<Longrightarrow>
   \<exists>d. derivative S t v = Inr d \<and> \<not> has_nonconstant_exponent d \<and>
     (\<forall>w. \<exists>d'. derivative S d w = Inr d') \<and>
     (\<forall>b. vars t \<subseteq> dom b \<longrightarrow> (\<exists>a. evaluate S d b = Inr a))"
proof -
  assume "\<not> has_nonconstant_exponent t"
  from derivative_ok[OF this] obtain d where
    d: "derivative S t v = Inr d" "\<not> has_nonconstant_exponent d" by blast
  from derivative_ok[OF d(2)] have "\<forall>w. \<exists>d'. derivative S d w = Inr d'"
    by blast
  moreover have "\<forall>b. vars t \<subseteq> dom b \<longrightarrow> (\<exists>a. evaluate S d b = Inr a)"
    using derivative_vars[OF d(1)] evaluate_defined[of d _ S] by blast
  ultimately show ?thesis using d by blast
qed

theorem derivative_composes_witness:
  "\<not> has_nonconstant_exponent
       (operator_plus (pow_scalar (Variable ''x'') 2) (sin_expr (Variable ''x'')) :: real expr) \<and>
   (\<exists>d. derivative demo
          (operator_plus (pow_scalar (Variable ''x'') 2) (sin_expr (Variable ''x''))) ''x'' = Inr d \<and>
        \<not> has_nonconstant_exponent d \<and>
        (\<exists>d'. derivative demo d ''x'' = Inr d') \<and>
        (\<exists>a. evaluate demo d [''x'' \<mapsto> 3 / 2] = Inr a))"
proof -
  let ?f = "operator_plus (pow_scalar (Variable ''x'') 2) (sin_expr (Variable ''x'')) :: real expr"
  have h: "\<not> has_nonconstant_exponent ?f"
    by (simp add: has_nce_simps operator_plus_def pow_scalar_def pow_def sin_expr_def
          Expression_value_def)
  have v: "vars ?f \<subseteq> dom [''x'' \<mapsto> 3 / (2::real)]"
    by (simp add: operator_plus_def pow_scalar_def pow_def sin_expr_def Expression_value_def)
  show ?thesis
    using h v derivative_composes[OF h, of demo "''x''"] by blast
qed

text \<open>
  Claim C7 asks that a subtree without the substituted variable comes back as the
  identical node. It does not when the subtree has children: in \<open>example_store\<close> node 2
  is \<open>1 + 2\<close>, and substituting for \<open>x\<close> in it allocates node 9, a copy.
\<close>

theorem substitute_copies_unchanged_node:
  "tree_of 2 example_store 2 = Some (Add (Constant 1) (Constant 2)) \<and>
   ''x'' \<notin> vars (Add (Constant 1) (Constant (2::real))) \<and>
   substitute_at 2 example_store 2 ''x'' 8 =
     Some (example_store @ [Node_binary ADD (Some 0) (Some 1)], 9) \<and>
   substitute_at 2 example_store 2 ''x'' 8 \<noteq> Some (example_store, 2)"
  by (simp add: store_simps)

text \<open>
  Claim C7, as amended (what \<^verbatim>\<open>substitute\<close> shares). \<^verbatim>\<open>substitute\<close> leaves every
  existing node as it is. On the substituted variable it returns the replacement's
  root itself, and on any other leaf the leaf itself, allocating nothing. On a node
  with a child it returns a node allocated by this call, of the same kind, over the
  answers for its children, also when the variable does not occur below it; the new
  node then stands for the same tree as the old one. So the nodes of the original
  store that the answer reaches are exactly the leaves below the node that are not
  the substituted variable, and the nodes of the replacement when the variable occurs.
\<close>

theorem substitute_at_sharing:
  assumes "substitute_at k h this x e = Some (h', r)"
  shows "(\<exists>ns. h' = h @ ns) \<and>
    (n_type (h ! this) = VARIABLE \<and> n_variable (h ! this) = x \<longrightarrow> h' = h \<and> r = e) \<and>
    (\<not> (n_type (h ! this) = VARIABLE \<and> n_variable (h ! this) = x) \<and>
       n_left (h ! this) = None \<and> n_right (h ! this) = None \<longrightarrow> h' = h \<and> r = this) \<and>
    (\<not> (n_type (h ! this) = VARIABLE \<and> n_variable (h ! this) = x) \<and>
       (n_left (h ! this) \<noteq> None \<or> n_right (h ! this) \<noteq> None) \<longrightarrow>
         r \<noteq> this \<and> length h \<le> r \<and> length h' = Suc r \<and>
         n_type (h' ! r) = n_type (h ! this)) \<and>
    (\<not> (n_type (h ! this) = VARIABLE \<and> n_variable (h ! this) = x) \<and>
       n_left (h ! this) = Some l \<and> n_right (h ! this) = None \<longrightarrow>
         (\<exists>k' h1 l'. k = Suc k' \<and> substitute_at k' h l x e = Some (h1, l') \<and>
            h' = h1 @ [Node_binary (n_type (h ! this)) (Some l') None] \<and> r = length h1)) \<and>
    (\<not> (n_type (h ! this) = VARIABLE \<and> n_variable (h ! this) = x) \<and>
       n_left (h ! this) = Some l \<and> n_right (h ! this) = Some rc \<longrightarrow>
         (\<exists>k' h1 l' h2 r'. k = Suc k' \<and> substitute_at k' h l x e = Some (h1, l') \<and>
            substitute_at k' h1 rc x e = Some (h2, r') \<and>
            h' = h2 @ [Node_binary (n_type (h ! this)) (Some l') (Some r')] \<and>
            r = length h2)) \<and>
    (tree_of k h this = Some t \<and> x \<notin> vars t \<longrightarrow> (\<exists>i. tree_of i h' r = Some t)) \<and>
    (tree_of k h this = Some t \<and> (x \<in> vars t \<longrightarrow> tree_of j h e = Some v) \<longrightarrow>
       {q \<in> reach (k + j + i) h' r. q < length h} =
         kept k h this x \<union> (if x \<in> vars t then reach j h e else {}))"
proof (intro conjI impI)
  show "\<exists>ns. h' = h @ ns"
    using assms by (rule substitute_at_extends)
next
  assume "n_type (h ! this) = VARIABLE \<and> n_variable (h ! this) = x"
  with substitute_at_variable_result[OF assms] show "h' = h" "r = e" by simp_all
next
  assume a: "\<not> (n_type (h ! this) = VARIABLE \<and> n_variable (h ! this) = x) \<and>
       n_left (h ! this) = None \<and> n_right (h ! this) = None"
  with substitute_at_leaf_result[OF assms] show "h' = h" "r = this" by auto
next
  assume a: "\<not> (n_type (h ! this) = VARIABLE \<and> n_variable (h ! this) = x) \<and>
       (n_left (h ! this) \<noteq> None \<or> n_right (h ! this) \<noteq> None)"
  then have i: "length h \<le> r \<and> length h' = Suc r \<and> n_type (h' ! r) = n_type (h ! this)"
    using substitute_at_interior[OF assms] by blast
  then show "length h \<le> r" "length h' = Suc r" "n_type (h' ! r) = n_type (h ! this)"
    by simp_all
  from i substitute_at_in_store[OF assms] show "r \<noteq> this" by simp
next
  assume "\<not> (n_type (h ! this) = VARIABLE \<and> n_variable (h ! this) = x) \<and>
       n_left (h ! this) = Some l \<and> n_right (h ! this) = None"
  then show "\<exists>k' h1 l'. k = Suc k' \<and> substitute_at k' h l x e = Some (h1, l') \<and>
      h' = h1 @ [Node_binary (n_type (h ! this)) (Some l') None] \<and> r = length h1"
    using substitute_at_unary_result[OF assms] by blast
next
  assume "\<not> (n_type (h ! this) = VARIABLE \<and> n_variable (h ! this) = x) \<and>
       n_left (h ! this) = Some l \<and> n_right (h ! this) = Some rc"
  then show "\<exists>k' h1 l' h2 r'. k = Suc k' \<and> substitute_at k' h l x e = Some (h1, l') \<and>
      substitute_at k' h1 rc x e = Some (h2, r') \<and>
      h' = h2 @ [Node_binary (n_type (h ! this)) (Some l') (Some r')] \<and> r = length h2"
    using substitute_at_binary_result[OF assms] by blast
next
  assume a: "tree_of k h this = Some t \<and> x \<notin> vars t"
  then have "\<exists>i. tree_of i h' r = Some (substitute t x t)"
    using substitute_at_refines[of k h this t x 0 e t h' r] assms by blast
  with a show "\<exists>i. tree_of i h' r = Some t"
    by (simp add: substitute_absent)
next
  assume "tree_of k h this = Some t \<and> (x \<in> vars t \<longrightarrow> tree_of j h e = Some v)"
  then show "{q \<in> reach (k + j + i) h' r. q < length h} =
      kept k h this x \<union> (if x \<in> vars t then reach j h e else {})"
    using substitute_at_reach[of k h this t x j e v h' r i] assms by blast
qed

theorem substitute_at_sharing_witness:
  "substitute_at 1 example_store 3 ''y'' 8 = Some (example_store, 8) \<and>
   substitute_at 1 example_store 0 ''y'' 8 = Some (example_store, 0) \<and>
   substitute_at 2 example_store 2 ''y'' 8 =
     Some (example_store @ [Node_binary ADD (Some 0) (Some 1)], 9) \<and>
   tree_of 2 example_store 2 = Some (Add (Constant 1) (Constant 2)) \<and>
   ''y'' \<notin> vars (Add (Constant 1) (Constant (2::real))) \<and>
   (\<exists>i. tree_of i (example_store @ [Node_binary ADD (Some 0) (Some 1)]) 9 =
          Some (Add (Constant 1) (Constant 2))) \<and>
   {q \<in> reach 4 (example_store @ [Node_binary ADD (Some 0) (Some 1)]) 9.
      q < length example_store} = {0, 1} \<and>
   substitute_at 2 example_store 5 ''y'' 8 =
     Some (example_store @ [Node_binary MULTIPLY (Some 8) (Some 8)], 9) \<and>
   tree_of 2 example_store 5 = Some (Multiply (Variable ''y'') (Variable ''y'')) \<and>
   tree_of 2 example_store 8 = Some (Add (Variable ''y'') (Constant 1)) \<and>
   {q \<in> reach 4 (example_store @ [Node_binary MULTIPLY (Some 8) (Some 8)]) 9.
      q < length example_store} = {6, 7, 8}"
proof -
  have v: "substitute_at 1 example_store 3 ''y'' 8 = Some (example_store, 8)"
    by (simp add: store_simps)
  have l: "substitute_at 1 example_store 0 ''y'' 8 = Some (example_store, 0)"
    by (simp add: store_simps)
  have i: "substitute_at 2 example_store 2 ''y'' 8 =
      Some (example_store @ [Node_binary ADD (Some 0) (Some 1)], 9)"
    by (simp add: store_simps)
  have t: "tree_of 2 example_store 2 = Some (Add (Constant 1) (Constant 2))"
    by (simp add: store_simps)
  have m: "substitute_at 2 example_store 5 ''y'' 8 =
      Some (example_store @ [Node_binary MULTIPLY (Some 8) (Some 8)], 9)"
    by (simp add: store_simps)
  have tm: "tree_of 2 example_store 5 = Some (Multiply (Variable ''y'') (Variable ''y''))"
    by (simp add: store_simps)
  have te: "tree_of 2 example_store 8 = Some (Add (Variable ''y'') (Constant 1))"
    by (simp add: store_simps)
  have k2: "kept 2 example_store 2 ''y'' = {0, 1}"
    by (auto simp: reach_simps store_simps)
  have k5: "kept 2 example_store 5 ''y'' = {}"
    by (auto simp: reach_simps store_simps)
  have r8: "reach 2 example_store 8 = {6, 7, 8}"
    by (auto simp: reach_simps store_simps)
  show ?thesis
    using v l i t m tm te k2 k5 r8 substitute_at_sharing[OF v] substitute_at_sharing[OF l]
      substitute_at_sharing[OF i, of 0 1 "Add (Constant 1) (Constant 2)" 2
        "Add (Variable ''y'') (Constant 1)" 0]
      substitute_at_sharing[OF m, of 3 4 "Multiply (Variable ''y'') (Variable ''y'')" 2
        "Add (Variable ''y'') (Constant 1)" 0]
    by simp
qed

text \<open>
  Claim C8 (rendering). \<^verbatim>\<open>toString\<close> prints a constant in the scalar's text form, a
  variable as its name, the four arithmetic kinds as \<open>(left OP right)\<close>, \<^verbatim>\<open>Power\<close> as
  \<open>pow(left, right)\<close>, the four functions as \<open>fname(operand)\<close> and \<^verbatim>\<open>Negate\<close> as
  \<open>-(operand)\<close>; where the scalar 1 prints as \<open>1\<close>, \<open>Add (Constant 1) (Variable x)\<close> prints
  as \<open>(1 + x)\<close>.
\<close>

theorem toString_renders:
  "toString S (Constant c) = s_print S c \<and>
   toString S (Variable n) = n \<and>
   toString S (Add l r) = ''('' @ toString S l @ '' + '' @ toString S r @ '')'' \<and>
   toString S (Subtract l r) = ''('' @ toString S l @ '' - '' @ toString S r @ '')'' \<and>
   toString S (Multiply l r) = ''('' @ toString S l @ '' * '' @ toString S r @ '')'' \<and>
   toString S (Divide l r) = ''('' @ toString S l @ '' / '' @ toString S r @ '')'' \<and>
   toString S (Power l r) = ''pow('' @ toString S l @ '', '' @ toString S r @ '')'' \<and>
   toString S (Sin l) = ''sin('' @ toString S l @ '')'' \<and>
   toString S (Cos l) = ''cos('' @ toString S l @ '')'' \<and>
   toString S (Exp l) = ''exp('' @ toString S l @ '')'' \<and>
   toString S (Log l) = ''log('' @ toString S l @ '')'' \<and>
   toString S (Negate l) = ''-('' @ toString S l @ '')'' \<and>
   (s_print S (from_int S 1) = ''1'' \<longrightarrow>
      toString S (Add (Constant (from_int S 1)) (Variable ''x'')) = ''(1 + x)'')"
  by simp

theorem toString_renders_witness:
  "s_print demo (from_int demo 1) = ''1'' \<and>
   toString demo (Add (Constant (from_int demo 1)) (Variable ''x'')) = ''(1 + x)''"
proof -
  have h: "s_print demo (from_int demo 1) = ''1''"
    by (simp add: demo_def real_scalar_def decimal.simps)
  show ?thesis
    using h toString_renders[of demo] by simp
qed

text \<open>
  Claim C9 asks that a tree built from \<open>a\<close> with the builder operations over constants
  evaluates to exactly \<open>a\<close>. It does for \<^verbatim>\<open>Expression(a)\<close> and not in general:
  \<^verbatim>\<open>-Expression(1)\<close> is built from 1 over constants only and evaluates to \<open>-1\<close>.
\<close>

theorem constant_tree_not_exactly_a:
  "isConstant (operator_negate (Expression_value (1::real))) \<and>
   evaluate demo (operator_negate (Expression_value 1)) Map.empty = Inr (- 1) \<and>
   evaluate demo (operator_negate (Expression_value 1)) Map.empty \<noteq> Inr 1"
  by (simp add: operator_negate_def Expression_value_def demo_def real_scalar_def unary_def)

text \<open>
  Claim C9, as amended (constant evaluation). \<^verbatim>\<open>Expression(a)\<close> evaluates to exactly
  \<open>a\<close> at any bindings, the empty ones included; \<^verbatim>\<open>Expression()\<close> is the constant
  \<^verbatim>\<open>T(0)\<close> and evaluates to it at any bindings. A tree built over constants only
  evaluates at every bindings, without failing, to one value: its constants combined
  by the scalar operations of its nodes. Each builder operation evaluates to the
  scalar operation of its kind applied to the values of its operands.
\<close>

theorem constant_evaluation:
  "evaluate S (Expression_value a) b = Inr a \<and>
   evaluate S (Expression_value a) Map.empty = Inr a \<and>
   Expression_default S = Constant (from_int S 0) \<and>
   evaluate S (Expression_default S) b = Inr (from_int S 0) \<and>
   (isConstant t \<longrightarrow>
      (\<exists>c. constant_value S t = Some c \<and> (\<forall>b'. evaluate S t b' = Inr c))) \<and>
   (constant_value S t = None) = (\<not> isConstant t) \<and>
   (evaluate S l b = Inr x \<and> evaluate S r b = Inr y \<longrightarrow>
      evaluate S (operator_plus l r) b = Inr (s_add S x y) \<and>
      evaluate S (operator_minus l r) b = Inr (s_sub S x y) \<and>
      evaluate S (operator_times l r) b = Inr (s_mul S x y) \<and>
      evaluate S (operator_divide l r) b = Inr (s_div S x y) \<and>
      evaluate S (pow l r) b = Inr (s_pow S x y) \<and>
      evaluate S (pow_scalar l y) b = Inr (s_pow S x y) \<and>
      evaluate S (operator_negate l) b = Inr (s_neg S x) \<and>
      evaluate S (sin_expr l) b = Inr (s_sin S x) \<and>
      evaluate S (cos_expr l) b = Inr (s_cos S x) \<and>
      evaluate S (exp_expr l) b = Inr (s_exp S x) \<and>
      evaluate S (log_expr l) b = Inr (s_log S x))"
proof (intro conjI impI)
  assume c: "isConstant t"
  from constant_value_isConstant[OF c] obtain c0 where c0: "constant_value S t = Some c0"
    by blast
  then have "\<forall>b'. evaluate S t b' = Inr c0"
    by (simp add: constant_value_evaluate)
  with c0 show "\<exists>c. constant_value S t = Some c \<and> (\<forall>b'. evaluate S t b' = Inr c)"
    by blast
next
  show "(constant_value S t = None) = (\<not> isConstant t)"
    by (rule constant_value_None)
qed (simp_all add: Expression_value_def Expression_default_def operator_plus_def
      operator_minus_def operator_times_def operator_divide_def operator_negate_def
      pow_def pow_scalar_def sin_expr_def cos_expr_def exp_expr_def log_expr_def
      binary_def unary_def)

theorem constant_evaluation_witness:
  "isConstant (operator_plus (Expression_value 1) (Expression_value (2::real))) \<and>
   constant_value demo (operator_plus (Expression_value 1) (Expression_value 2)) = Some 3 \<and>
   (\<forall>b'. evaluate demo (operator_plus (Expression_value 1) (Expression_value 2)) b' = Inr 3) \<and>
   evaluate demo (Expression_value 1) Map.empty = Inr 1 \<and>
   evaluate demo (Expression_value 2) Map.empty = Inr 2 \<and>
   evaluate demo (operator_times (Expression_value 1) (Expression_value 2)) Map.empty = Inr 2 \<and>
   evaluate demo (operator_negate (Expression_value 1)) Map.empty = Inr (- 1)"
proof -
  let ?t = "operator_plus (Expression_value 1) (Expression_value (2::real))"
  have c: "isConstant ?t"
    by (simp add: operator_plus_def Expression_value_def)
  have v: "constant_value demo ?t = Some 3"
    by (simp add: operator_plus_def Expression_value_def demo_def real_scalar_def)
  have l: "evaluate demo (Expression_value 1) Map.empty = Inr 1"
    and r: "evaluate demo (Expression_value 2) Map.empty = Inr 2"
    by (simp_all add: Expression_value_def)
  show ?thesis
    using c v l r
      constant_evaluation[of demo 1 Map.empty ?t "Expression_value 1" 1 "Expression_value 2" 2]
    by (simp add: demo_def real_scalar_def)
qed

text \<open>
  Claim C10 (substitution is a single pass). \<^verbatim>\<open>substitute\<close> replaces each leaf
  \<open>Variable v\<close> by the replacement \<open>r\<close> as it is: \<open>v := v + c\<close> in \<open>v * v\<close> gives
  \<open>(v + c) * (v + c)\<close>; the variables of the result are those of the tree other than
  \<open>v\<close>, with those of \<open>r\<close> (\<open>v\<close> among them if \<open>r\<close> has it) when \<open>v\<close> occurs; and the
  result evaluates as the tree does with \<open>v\<close> bound to the value of \<open>r\<close>, the
  occurrences of \<open>v\<close> inside \<open>r\<close> reading the original binding. In the store, on a node
  that stands for a finite tree, \<^verbatim>\<open>substitute\<close> returns with the fuel that reads the
  tree and with any larger fuel, whatever the replacement, and its answer stands for
  the substituted tree.
\<close>

theorem substitute_single_pass:
  "substitute (Variable v) v r = r \<and>
   substitute (Multiply (Variable v) (Variable v)) v (Add (Variable v) (Constant c)) =
     Multiply (Add (Variable v) (Constant c)) (Add (Variable v) (Constant c)) \<and>
   vars (substitute t v r) = (vars t - {v}) \<union> (if v \<in> vars t then vars r else {}) \<and>
   (evaluate S r b = Inr a \<longrightarrow> evaluate S (substitute t v r) b = evaluate S t (b(v \<mapsto> a))) \<and>
   (tree_of k h this = Some t \<longrightarrow>
      (\<exists>h' res. substitute_at k h this v e = Some (h', res) \<and>
         (\<forall>j. substitute_at (k + j) h this v e = Some (h', res)) \<and>
         (tree_of j h e = Some r \<longrightarrow> (\<exists>i. tree_of i h' res = Some (substitute t v r)))))"
proof (intro conjI impI)
  show "vars (substitute t v r) = (vars t - {v}) \<union> (if v \<in> vars t then vars r else {})"
    by (rule vars_substitute)
next
  assume "evaluate S r b = Inr a"
  then show "evaluate S (substitute t v r) b = evaluate S t (b(v \<mapsto> a))"
    by (rule evaluate_substitute)
next
  assume t: "tree_of k h this = Some t"
  from substitute_at_terminates[OF this] obtain h' res where
    s: "substitute_at k h this v e = Some (h', res)" by blast
  have "\<forall>j. substitute_at (k + j) h this v e = Some (h', res)"
    using substitute_at_fuel[OF s] by blast
  moreover have "tree_of j h e = Some r \<longrightarrow> (\<exists>i. tree_of i h' res = Some (substitute t v r))"
    using substitute_at_refines[OF t _ s, of j r] by blast
  ultimately show "\<exists>h' res. substitute_at k h this v e = Some (h', res) \<and>
         (\<forall>j. substitute_at (k + j) h this v e = Some (h', res)) \<and>
         (tree_of j h e = Some r \<longrightarrow> (\<exists>i. tree_of i h' res = Some (substitute t v r)))"
    using s by blast
qed simp_all

theorem substitute_single_pass_witness:
  "evaluate demo (Add (Variable ''y'') (Constant 1)) [''y'' \<mapsto> 2] = Inr 3 \<and>
   evaluate demo
     (substitute (Multiply (Variable ''y'') (Variable ''y'')) ''y'' (Add (Variable ''y'') (Constant 1)))
     [''y'' \<mapsto> 2] = Inr 9 \<and>
   tree_of 2 example_store 5 = Some (Multiply (Variable ''y'') (Variable ''y'')) \<and>
   tree_of 2 example_store 8 = Some (Add (Variable ''y'') (Constant 1)) \<and>
   (\<exists>h' res. substitute_at 2 example_store 5 ''y'' 8 = Some (h', res) \<and>
      (\<exists>i. tree_of i h' res =
         Some (Multiply (Add (Variable ''y'') (Constant 1)) (Add (Variable ''y'') (Constant 1)))))"
proof -
  have e: "evaluate demo (Add (Variable ''y'') (Constant 1)) [''y'' \<mapsto> 2] = Inr 3"
    by (simp add: demo_def real_scalar_def binary_def)
  have t: "tree_of 2 example_store 5 = Some (Multiply (Variable ''y'') (Variable ''y''))"
    by (simp add: store_simps)
  have r: "tree_of 2 example_store 8 = Some (Add (Variable ''y'') (Constant 1))"
    by (simp add: store_simps)
  show ?thesis
    using e t r
      substitute_single_pass[of "''y''" "Add (Variable ''y'') (Constant 1)" 1
        "Multiply (Variable ''y'') (Variable ''y'')" demo "[''y'' \<mapsto> 2]" 3
        2 example_store 5 8 2]
    by (simp add: demo_def real_scalar_def binary_def) blast
qed

end
